theory Spec2Isabelle
  imports Main "HOL-Library.Char_ord" "HOL-Library.List_Lexorder"
begin

section \<open>The hub server of symphony-of-one-mcp (server.js)\<close>

text \<open>
  The hub keeps its state in JavaScript \<open>Map\<close>s and mirrors part of it in an SQLite
  database. The model below follows server.js function by function. Strings are HOL
  strings; every call of \<open>uuidv4()\<close> and \<open>new Date()\<close> is an argument of the handler
  that makes it, so a handler is a function of the state and of what the environment
  hands to it.
\<close>

subsection \<open>JavaScript Map: insertion-ordered, keys unique\<close>

type_synonym 'v jsmap = "(string \<times> 'v) list"

definition map_get :: "'v jsmap \<Rightarrow> string \<Rightarrow> 'v option" where
  "map_get m k = map_of m k"

definition map_has :: "'v jsmap \<Rightarrow> string \<Rightarrow> bool" where
  "map_has m k = (map_of m k \<noteq> None)"

text \<open>\<open>Map.prototype.set\<close>: an existing key keeps its position, a new key goes last.\<close>

fun map_set :: "'v jsmap \<Rightarrow> string \<Rightarrow> 'v \<Rightarrow> 'v jsmap" where
  "map_set [] k v = [(k, v)]"
| "map_set ((k', v') # m) k v = (if k' = k then (k, v) # m else (k', v') # map_set m k v)"

definition map_delete :: "'v jsmap \<Rightarrow> string \<Rightarrow> 'v jsmap" where
  "map_delete m k = filter (\<lambda>kv. fst kv \<noteq> k) m"

definition map_values :: "'v jsmap \<Rightarrow> 'v list" where
  "map_values m = map snd m"

subsection \<open>The mention regular expression\<close>

text \<open>
  \<open>parseMentions\<close> runs \<^verbatim>\<open>/@(\w+(?:-\w+)*)/g\<close> with \<open>exec\<close> in a loop. The regular
  expression is modelled as a term and matched the way a backtracking engine does:
  \<open>rmatch r s\<close> lists, in the engine's order of preference, what is left of \<open>s\<close> after each
  way \<open>r\<close> can match a prefix of it. Both quantifiers are greedy. \<open>\w\<close> without the
  \<open>u\<close> flag is \<open>[A-Za-z0-9_]\<close>.
\<close>

datatype regex = Lit char | WordCh | Seq regex regex | Star regex

definition is_word :: "char \<Rightarrow> bool" where
  "is_word c =
     (let n = (of_char c :: nat)
      in (65 \<le> n \<and> n \<le> 90) \<or> (97 \<le> n \<and> n \<le> 122) \<or> (48 \<le> n \<and> n \<le> 57) \<or> n = 95)"

fun rmatch :: "regex \<Rightarrow> string \<Rightarrow> string list" where
  "rmatch (Lit c) s = (case s of [] \<Rightarrow> [] | x # xs \<Rightarrow> if x = c then [xs] else [])"
| "rmatch WordCh s = (case s of [] \<Rightarrow> [] | x # xs \<Rightarrow> if is_word x then [xs] else [])"
| "rmatch (Seq r1 r2) s = concat (map (rmatch r2) (rmatch r1 s))"
| "rmatch (Star r) s =
     concat (map (\<lambda>s'. if length s' < length s then rmatch (Star r) s' else []) (rmatch r s)) @ [s]"

lemmas rmatch_Star = rmatch.simps(4)

declare rmatch.simps(4) [simp del]

text \<open>\<open>r+\<close> is \<open>r\<close> followed by \<open>r*\<close>.\<close>

definition Plus :: "regex \<Rightarrow> regex" where
  "Plus r = Seq r (Star r)"

text \<open>
  One segment \<^verbatim>\<open>-\w+\<close>; group 1, \<^verbatim>\<open>\w+(?:-\w+)*\<close>; and the whole expression.
\<close>

definition seg :: regex where
  "seg = Seq (Lit CHR ''-'') (Plus WordCh)"

definition mentionGroup :: regex where
  "mentionGroup = Seq (Plus WordCh) (Star seg)"

definition mentionRegex :: regex where
  "mentionRegex = Seq (Lit CHR ''@'') mentionGroup"

text \<open>
  \<open>exec\<close> on a global regular expression tries each start position from \<open>lastIndex\<close> on
  and takes the engine's first match there. The argument is the input from \<open>lastIndex\<close>
  on (the expression looks at nothing before it); the result is the matched text
  \<open>match[0]\<close> and the input from the new \<open>lastIndex\<close> on, or \<open>None\<close> for \<open>null\<close>.
\<close>

fun exec :: "regex \<Rightarrow> string \<Rightarrow> (string \<times> string) option" where
  "exec r s =
     (case rmatch r s of
        rest # _ \<Rightarrow> Some (take (length s - length rest) s, rest)
      | [] \<Rightarrow> (case s of [] \<Rightarrow> None | _ # s' \<Rightarrow> exec r s'))"

declare exec.simps [simp del]

lemma rmatch_length: "s' \<in> set (rmatch r s) \<Longrightarrow> length s' \<le> length s"
proof (induction r s arbitrary: s' rule: rmatch.induct)
  case (1 c s)
  then show ?case by (auto split: list.splits if_splits)
next
  case (2 s)
  then show ?case by (auto split: list.splits if_splits)
next
  case (3 r1 r2 s)
  then show ?case by fastforce
next
  case (4 r s)
  from 4 show ?case
    by (subst (asm) (2) rmatch_Star) (fastforce split: if_splits)
qed

lemma rmatch_mentionRegex_shorter:
  "s' \<in> set (rmatch mentionRegex s) \<Longrightarrow> length s' < length s"
  by (cases s) (auto simp: mentionRegex_def dest!: rmatch_length split: if_splits)

lemma exec_mentionRegex_shorter:
  "exec mentionRegex s = Some (m, rest) \<Longrightarrow> length rest < length s"
proof (induction s)
  case Nil
  then show ?case
    by (simp add: exec.simps[of _ "[]"] mentionRegex_def mentionGroup_def Plus_def)
next
  case (Cons a s)
  show ?case
  proof (cases "rmatch mentionRegex (a # s)")
    case Nil
    with Cons show ?thesis by (simp add: exec.simps[of _ "a # s"])
  next
    case (Cons r rs)
    then have "r \<in> set (rmatch mentionRegex (a # s))" by simp
    from rmatch_mentionRegex_shorter[OF this] Cons Cons.prems show ?thesis
      by (simp add: exec.simps[of _ "a # s"])
  qed
qed

subsection \<open>parseMentions\<close>

text \<open>
  The \<open>while\<close> loop of \<open>parseMentions\<close>: \<open>exec\<close> until it returns \<open>null\<close>, pushing
  \<open>match[1]\<close>. Group 1 encloses everything after the \<open>@\<close>, so \<open>match[1]\<close> is
  \<open>match[0]\<close> without its first character.
\<close>

function parseMentions_loop :: "string \<Rightarrow> string list \<Rightarrow> string list" where
  "parseMentions_loop s mentions =
     (case exec mentionRegex s of
        None \<Rightarrow> mentions
      | Some (m, rest) \<Rightarrow> parseMentions_loop rest (mentions @ [tl m]))"
  by pat_completeness auto
termination
  by (relation "measure (\<lambda>(s, mentions). length s)") (auto dest: exec_mentionRegex_shorter)

declare parseMentions_loop.simps [simp del]

definition parseMentions :: "string \<Rightarrow> string list" where
  "parseMentions content = parseMentions_loop content []"

subsection \<open>The mention parser as the specification words it\<close>

text \<open>
  Section 4.3 of the specification: a mention is the token \<open>@\<close> followed by one or more
  word characters, optionally extended with \<open>-word\<close> segments; the output is the ordered
  list of the names, duplicates preserved. \<open>spec_segments\<close> reads the \<open>-word\<close> segments
  at the front of its argument and returns them with the rest of the input;
  \<open>spec_parseMentions\<close> scans the content from left to right.
\<close>

fun starts_word :: "string \<Rightarrow> bool" where
  "starts_word [] = False"
| "starts_word (c # _) = is_word c"

function spec_segments :: "string \<Rightarrow> string \<times> string" where
  "spec_segments [] = ([], [])"
| "spec_segments (c # t) =
     (if c = CHR ''-'' \<and> starts_word t
      then (case spec_segments (dropWhile is_word t) of
              (m, r) \<Rightarrow> (c # takeWhile is_word t @ m, r))
      else ([], c # t))"
  by pat_completeness auto
termination
  by (relation "measure length") (auto simp: le_imp_less_Suc length_dropWhile_le)

lemma spec_segments_length: "length (snd (spec_segments s)) \<le> length s"
proof (induction s rule: spec_segments.induct)
  case 1
  show ?case by simp
next
  case (2 c t)
  have "length (dropWhile is_word t) \<le> length t" by (rule length_dropWhile_le)
  with 2 show ?case by (auto split: prod.splits)
qed

function spec_parseMentions :: "string \<Rightarrow> string list" where
  "spec_parseMentions [] = []"
| "spec_parseMentions (c # s) =
     (if c = CHR ''@'' \<and> starts_word s
      then (case spec_segments (dropWhile is_word s) of
              (m, r) \<Rightarrow> (takeWhile is_word s @ m) # spec_parseMentions r)
      else spec_parseMentions s)"
  by pat_completeness auto
termination
proof (relation "measure length", simp_all, goal_cases)
  case (1 s x y)
  then have "y = snd (spec_segments (dropWhile is_word s))" by (metis snd_conv)
  moreover have "length (snd (spec_segments (dropWhile is_word s))) \<le> length (dropWhile is_word s)"
    by (rule spec_segments_length)
  moreover have "length (dropWhile is_word s) \<le> length s" by (rule length_dropWhile_le)
  ultimately show ?case by simp
qed


subsection \<open>Instants and their two textual forms\<close>

text \<open>
  An instant is what \<open>Date.now()\<close> returns: milliseconds since 1970-01-01T00:00:00Z.
  \<open>toISOString\<close> is \<open>Date.prototype.toISOString\<close> (\<open>YYYY-MM-DDTHH:mm:ss.sssZ\<close>), and
  \<open>sqlite_datetime\<close> is what SQLite's \<open>datetime('now')\<close> returns at that instant
  (\<open>YYYY-MM-DD HH:MM:SS\<close>, UTC). Both are modelled for the years 0000 to 9999, where
  the year has four digits. \<open>civil_from_days\<close> turns a day count into the proleptic
  Gregorian year, month and day: from the day of the 400-year era (\<open>doe\<close>) to the year of
  the era (\<open>yoe\<close>), the day of the year counted from 1 March (\<open>doy\<close>) and the month
  counted from March (\<open>mp\<close>).
\<close>

type_synonym instant = int

definition digit_char :: "nat \<Rightarrow> char" where
  "digit_char d = ''0123456789'' ! (d mod 10)"

text \<open>The last two, three and four decimal digits of a number.\<close>

definition pad2 :: "nat \<Rightarrow> string" where
  "pad2 n = [digit_char (n div 10), digit_char n]"

definition pad3 :: "nat \<Rightarrow> string" where
  "pad3 n = [digit_char (n div 100), digit_char (n div 10), digit_char n]"

definition pad4 :: "nat \<Rightarrow> string" where
  "pad4 n = [digit_char (n div 1000), digit_char (n div 100), digit_char (n div 10), digit_char n]"

definition month_of_mp :: "int \<Rightarrow> int" where
  "month_of_mp mp = (if mp < 10 then mp + 3 else mp - 9)"

definition civil_of_mp :: "int \<Rightarrow> int \<Rightarrow> int \<Rightarrow> int \<times> int \<times> int" where
  "civil_of_mp y doy mp =
     (y + (if month_of_mp mp \<le> 2 then 1 else 0), month_of_mp mp, doy - (153 * mp + 2) div 5 + 1)"

definition civil_of_doy :: "int \<Rightarrow> int \<Rightarrow> int \<times> int \<times> int" where
  "civil_of_doy y doy = civil_of_mp y doy ((5 * doy + 2) div 153)"

definition civil_of_yoe :: "int \<Rightarrow> int \<Rightarrow> int \<Rightarrow> int \<times> int \<times> int" where
  "civil_of_yoe era doe yoe =
     civil_of_doy (yoe + era * 400) (doe - (365 * yoe + yoe div 4 - yoe div 100))"

definition civil_of_doe :: "int \<Rightarrow> int \<Rightarrow> int \<times> int \<times> int" where
  "civil_of_doe era doe =
     civil_of_yoe era doe ((doe - doe div 1460 + doe div 36524 - doe div 146096) div 365)"

definition civil_from_days :: "int \<Rightarrow> int \<times> int \<times> int" where
  "civil_from_days z = civil_of_doe ((z + 719468) div 146097) ((z + 719468) mod 146097)"

fun date_of_civil :: "int \<times> int \<times> int \<Rightarrow> string" where
  "date_of_civil (y, m, d) = pad4 (nat y) @ ''-'' @ pad2 (nat m) @ ''-'' @ pad2 (nat d)"

definition date_text :: "instant \<Rightarrow> string" where
  "date_text t = date_of_civil (civil_from_days (t div 86400000))"

definition hms_text :: "nat \<Rightarrow> string" where
  "hms_text n =
     pad2 (n div 3600000) @ '':'' @ pad2 (n div 60000 mod 60) @ '':'' @ pad2 (n div 1000 mod 60)"

definition time_text :: "instant \<Rightarrow> string" where
  "time_text t = hms_text (nat (t mod 86400000))"

definition toISOString :: "instant \<Rightarrow> string" where
  "toISOString t = date_text t @ ''T'' @ time_text t @ ''.'' @ pad3 (nat (t mod 1000)) @ ''Z''"

definition sqlite_datetime :: "instant \<Rightarrow> string" where
  "sqlite_datetime t = date_text t @ '' '' @ time_text t"

subsection \<open>Values and entities\<close>

text \<open>
  Free-form values (\<open>metadata\<close>, \<open>capabilities\<close>, \<open>settings\<close>) are JSON values. A column
  that holds \<open>JSON.stringify\<close> of such a value, read back with \<open>JSON.parse\<close>, is modelled
  as holding the value.
\<close>

datatype json = JNull | JBool bool | JNum int | JStr string | JArr "json list"
  | JObj "(string \<times> json) list"

text \<open>A room object; \<open>agents\<close> is a \<open>Set\<close> of agent ids, in insertion order.\<close>

record room =
  room_name :: string
  room_agents :: "string list"
  room_createdAt :: string
  room_isActive :: bool
  room_settings :: json

record agent =
  agent_id :: string
  agent_name :: string
  agent_room :: string
  agent_capabilities :: json
  agent_joinedAt :: string
  agent_lastActive :: string
  agent_socketId :: "string option"
  agent_status :: string

text \<open>
  A message object. The handlers build messages with different sets of properties; a
  property that a message lacks is \<open>None\<close> (for \<open>agentId\<close> of a join message, which is
  \<open>null\<close>, as well).
\<close>

record message =
  msg_id :: string
  msg_type :: string
  msg_agentId :: "string option"
  msg_agentName :: "string option"
  msg_content :: string
  msg_mentions :: "string list option"
  msg_metadata :: "json option"
  msg_timestamp :: string
  msg_room :: string
  msg_from :: "string option"

record notification =
  notif_id :: string
  notif_agent_id :: string
  notif_room :: string
  notif_message :: string
  notif_type :: string
  notif_is_read :: bool
  notif_created_at :: string

text \<open>Rows of the tables \<open>rooms\<close>, \<open>agents\<close>, \<open>messages\<close> and \<open>agent_memory\<close>.\<close>

record room_row =
  rr_id :: string
  rr_name :: string
  rr_created_at :: string
  rr_is_active :: bool
  rr_settings :: json

record agent_row =
  ar_id :: string
  ar_name :: string
  ar_room :: string
  ar_capabilities :: json
  ar_joined_at :: string
  ar_last_active :: string
  ar_status :: string

record message_row =
  mr_id :: string
  mr_room :: string
  mr_agent_id :: "string option"
  mr_agent_name :: string
  mr_content :: string
  mr_type :: string
  mr_mentions :: "string list"
  mr_metadata :: json
  mr_timestamp :: string

record memory_row =
  mem_id :: string
  mem_agent_id :: string
  mem_room :: string
  mem_key :: string
  mem_value :: string
  mem_type :: string
  mem_created_at :: string
  mem_expires_at :: "string option"

text \<open>The database: one list of rows per table, in insertion order.\<close>

record database =
  db_rooms :: "room_row list"
  db_agents :: "agent_row list"
  db_messages :: "message_row list"
  db_notifications :: "notification list"
  db_agent_memory :: "memory_row list"

text \<open>What \<open>io.to(target).emit(event, payload)\<close> sends.\<close>

datatype event = EvMessage message | EvNotification notification

text \<open>
  The state of the hub process: the module-level \<open>Map\<close>s \<open>rooms\<close>, \<open>agents\<close>,
  \<open>messages\<close> and \<open>fileWatcher\<close> (the names of the rooms that have a watcher), the
  emissions made so far, each with its target, and the database.
\<close>

record hub =
  rooms :: "room jsmap"
  agents :: "agent jsmap"
  messages :: "message list jsmap"
  fileWatcher :: "string list"
  emitted :: "(string \<times> event) list"
  db :: database

definition empty_database :: database where
  "empty_database =
     \<lparr>db_rooms = [], db_agents = [], db_messages = [], db_notifications = [],
      db_agent_memory = []\<rparr>"

text \<open>A process that has just started on database \<open>d\<close>, before \<open>initializeSystem\<close>.\<close>

definition fresh_process :: "database \<Rightarrow> hub" where
  "fresh_process d =
     \<lparr>rooms = [], agents = [], messages = [], fileWatcher = [], emitted = [], db = d\<rparr>"

subsection \<open>Database statements\<close>

text \<open>
  \<open>db.run\<close> is called without a callback, so a statement that fails (a second row with
  the primary key of an existing one) changes nothing and is not reported.
  \<open>INSERT OR REPLACE\<close> first deletes the rows that clash with the new one on a
  \<open>PRIMARY KEY\<close> or \<open>UNIQUE\<close> column.
\<close>

definition insert_row :: "('r \<Rightarrow> string) \<Rightarrow> 'r \<Rightarrow> 'r list \<Rightarrow> 'r list" where
  "insert_row key r tbl = (if key r \<in> set (map key tbl) then tbl else tbl @ [r])"

definition replace_room_row :: "room_row \<Rightarrow> room_row list \<Rightarrow> room_row list" where
  "replace_room_row r tbl =
     filter (\<lambda>x. rr_id x \<noteq> rr_id r \<and> rr_name x \<noteq> rr_name r) tbl @ [r]"

definition replace_agent_row :: "agent_row \<Rightarrow> agent_row list \<Rightarrow> agent_row list" where
  "replace_agent_row r tbl = filter (\<lambda>x. ar_id x \<noteq> ar_id r) tbl @ [r]"

definition update_last_active :: "string \<Rightarrow> string \<Rightarrow> agent_row list \<Rightarrow> agent_row list" where
  "update_last_active t aid tbl =
     map (\<lambda>x. if ar_id x = aid then x\<lparr>ar_last_active := t\<rparr> else x) tbl"

text \<open>The row that the two \<open>INSERT INTO messages\<close> statements write for a message.\<close>

definition row_of_message :: "message \<Rightarrow> string \<Rightarrow> message_row" where
  "row_of_message m aname =
     \<lparr>mr_id = msg_id m, mr_room = msg_room m, mr_agent_id = msg_agentId m,
      mr_agent_name = aname, mr_content = msg_content m, mr_type = msg_type m,
      mr_mentions = (case msg_mentions m of None \<Rightarrow> [] | Some xs \<Rightarrow> xs),
      mr_metadata = (case msg_metadata m of None \<Rightarrow> JObj [] | Some j \<Rightarrow> j),
      mr_timestamp = msg_timestamp m\<rparr>"

definition emit :: "string \<Rightarrow> event \<Rightarrow> hub \<Rightarrow> hub" where
  "emit target e s = s\<lparr>emitted := emitted s @ [(target, e)]\<rparr>"

subsection \<open>Responses\<close>

text \<open>
  \<open>Replied\<close> is \<open>res.json(payload)\<close> with status 200, \<open>Failed\<close> is
  \<open>res.status(code).json({success: false, error})\<close>, and \<open>Thrown\<close> is a \<open>TypeError\<close>
  raised in the handler (a method called on \<open>undefined\<close>).
\<close>

datatype 'a response = Replied 'a | Failed nat string | Thrown

subsection \<open>Rooms and agents\<close>

definition setupFileWatcher :: "string \<Rightarrow> hub \<Rightarrow> hub" where
  "setupFileWatcher roomName s =
     (if roomName \<in> set (fileWatcher s) then s
      else s\<lparr>fileWatcher := fileWatcher s @ [roomName]\<rparr>)"

text \<open>\<open>getRoom\<close>; \<open>u\<close> and \<open>t\<close> are its \<open>uuidv4()\<close> and \<open>new Date()\<close>.\<close>

definition getRoom :: "hub \<Rightarrow> string \<Rightarrow> string \<Rightarrow> instant \<Rightarrow> hub" where
  "getRoom s roomName u t =
     (if \<not> map_has (rooms s) roomName
      then (let room = \<lparr>room_name = roomName, room_agents = [], room_createdAt = toISOString t,
                          room_isActive = True, room_settings = JObj []\<rparr>;
                s1 = s\<lparr>rooms := map_set (rooms s) roomName room,
                       messages := map_set (messages s) roomName []\<rparr>;
                s2 = setupFileWatcher roomName s1
            in s2\<lparr>db := (db s2)\<lparr>db_rooms :=
                 replace_room_row
                   \<lparr>rr_id = u, rr_name = roomName, rr_created_at = room_createdAt room,
                    rr_is_active = True, rr_settings = room_settings room\<rparr>
                   (db_rooms (db s2))\<rparr>\<rparr>)
      else s)"

definition set_add :: "string list \<Rightarrow> string \<Rightarrow> string list" where
  "set_add xs x = (if x \<in> set xs then xs else xs @ [x])"

definition findAgentByName :: "hub \<Rightarrow> string \<Rightarrow> agent option" where
  "findAgentByName s agentName = find (\<lambda>a. agent_name a = agentName) (map_values (agents s))"

text \<open>
  \<open>POST /api/join/:room\<close>. The arguments after \<open>capabilities\<close> are the values of the
  \<open>uuidv4()\<close> and \<open>new Date()\<close> calls, in the order of the calls: those of \<open>getRoom\<close>,
  \<open>joinedAt\<close>, \<open>lastActive\<close>, and the id and timestamp of the join message. The payload
  is \<open>roomName\<close>, \<open>agentId\<close> and \<open>currentAgents\<close>.
\<close>

definition api_join ::
  "hub \<Rightarrow> string \<Rightarrow> string \<Rightarrow> string \<Rightarrow> json option \<Rightarrow> string \<Rightarrow> instant \<Rightarrow> instant \<Rightarrow> instant \<Rightarrow>
   string \<Rightarrow> instant \<Rightarrow> (string \<times> string \<times> agent option list) response \<times> hub" where
  "api_join s roomName agentId agentName capabilities u_room t_room t_joined t_active u_msg t_msg =
     (let caps = (case capabilities of None \<Rightarrow> JObj [] | Some c \<Rightarrow> c);
          s1 = getRoom s roomName u_room t_room
      in case map_get (rooms s1) roomName of
           None \<Rightarrow> (Thrown, s1)
         | Some room0 \<Rightarrow>
             (let room = room0\<lparr>room_agents := set_add (room_agents room0) agentId\<rparr>;
                  agent = \<lparr>agent_id = agentId, agent_name = agentName, agent_room = roomName,
                           agent_capabilities = caps, agent_joinedAt = toISOString t_joined,
                           agent_lastActive = toISOString t_active, agent_socketId = None,
                           agent_status = ''active''\<rparr>;
                  s2 = s1\<lparr>rooms := map_set (rooms s1) roomName room,
                         agents := map_set (agents s1) agentId agent\<rparr>;
                  s3 = s2\<lparr>db := (db s2)\<lparr>db_agents :=
                         replace_agent_row
                           \<lparr>ar_id = agentId, ar_name = agentName, ar_room = roomName,
                            ar_capabilities = caps, ar_joined_at = agent_joinedAt agent,
                            ar_last_active = agent_lastActive agent, ar_status = agent_status agent\<rparr>
                           (db_agents (db s2))\<rparr>\<rparr>;
                  joinMessage = \<lparr>msg_id = u_msg, msg_type = ''system'', msg_agentId = None,
                                 msg_agentName = Some ''System'',
                                 msg_content = agentName @ '' has joined the room'',
                                 msg_mentions = Some [],
                                 msg_metadata = Some (JObj [(''type'', JStr ''join'')]),
                                 msg_timestamp = toISOString t_msg, msg_room = roomName,
                                 msg_from = None\<rparr>
              in case map_get (messages s3) roomName of
                   None \<Rightarrow> (Thrown, s3)
                 | Some log \<Rightarrow>
                     (let s4 = s3\<lparr>messages := map_set (messages s3) roomName (log @ [joinMessage])\<rparr>;
                          s5 = s4\<lparr>db := (db s4)\<lparr>db_messages :=
                                 insert_row mr_id (row_of_message joinMessage ''System'')
                                   (db_messages (db s4))\<rparr>\<rparr>;
                          s6 = emit roomName (EvMessage joinMessage) s5
                      in (Replied (roomName, agentId,
                                   map (map_get (agents s6)) (room_agents room)), s6))))"

text \<open>\<open>POST /api/leave/:agentId\<close>; nothing of it is written to the database.\<close>

definition api_leave :: "hub \<Rightarrow> string \<Rightarrow> string \<Rightarrow> instant \<Rightarrow> unit response \<times> hub" where
  "api_leave s agentId u_msg t_msg =
     (case map_get (agents s) agentId of
        None \<Rightarrow> (Failed 404 ''Agent not found'', s)
      | Some agent \<Rightarrow>
          (case map_get (rooms s) (agent_room agent) of
             None \<Rightarrow> (Replied (), s\<lparr>agents := map_delete (agents s) agentId\<rparr>)
           | Some room \<Rightarrow>
               (let s1 = s\<lparr>rooms := map_set (rooms s) (agent_room agent)
                            (room\<lparr>room_agents := removeAll agentId (room_agents room)\<rparr>)\<rparr>;
                    leaveMessage = \<lparr>msg_id = u_msg, msg_type = ''system'', msg_agentId = None,
                                    msg_agentName = None,
                                    msg_content = agent_name agent @ '' has left the room'',
                                    msg_mentions = None, msg_metadata = None,
                                    msg_timestamp = toISOString t_msg,
                                    msg_room = agent_room agent, msg_from = None\<rparr>
                in case map_get (messages s1) (agent_room agent) of
                     None \<Rightarrow> (Thrown, s1)
                   | Some log \<Rightarrow>
                       (let s2 = s1\<lparr>messages :=
                                   map_set (messages s1) (agent_room agent) (log @ [leaveMessage])\<rparr>;
                            s3 = emit (agent_room agent) (EvMessage leaveMessage) s2
                        in (Replied (), s3\<lparr>agents := map_delete (agents s3) agentId\<rparr>)))))"

subsection \<open>Notifications\<close>

text \<open>
  \<open>createNotifications\<close>: one object per element of \<open>mentions\<close>, kept when its
  \<open>agent_id\<close> is truthy (the name resolves to an agent whose id is not the empty
  string); each is inserted and, when the recipient has a socket, emitted to it.
  \<open>u i\<close> and \<open>t i\<close> are the \<open>uuidv4()\<close> and the \<open>new Date()\<close> of the \<open>i\<close>-th mention.
  The template literal prints a missing \<open>agentName\<close> as \<open>undefined\<close>.
\<close>

definition notification_for ::
  "hub \<Rightarrow> message \<Rightarrow> (nat \<Rightarrow> string) \<Rightarrow> (nat \<Rightarrow> instant) \<Rightarrow> nat \<times> string \<Rightarrow> notification option" where
  "notification_for s m u t p =
     (case findAgentByName s (snd p) of
        None \<Rightarrow> None
      | Some a \<Rightarrow>
          if agent_id a = [] then None
          else Some \<lparr>notif_id = u (fst p), notif_agent_id = agent_id a, notif_room = msg_room m,
                     notif_message =
                       (case msg_agentName m of None \<Rightarrow> ''undefined'' | Some n \<Rightarrow> n) @
                       '' mentioned you: '' @ take 100 (msg_content m) @ ''...'',
                     notif_type = ''mention'', notif_is_read = False,
                     notif_created_at = toISOString (t (fst p))\<rparr>)"

definition deliver_notification :: "hub \<Rightarrow> notification \<Rightarrow> hub" where
  "deliver_notification s n =
     (let s1 = s\<lparr>db := (db s)\<lparr>db_notifications :=
                   insert_row notif_id n (db_notifications (db s))\<rparr>\<rparr>
      in case map_get (agents s1) (notif_agent_id n) of
           None \<Rightarrow> s1
         | Some a \<Rightarrow>
             (case agent_socketId a of
                None \<Rightarrow> s1
              | Some sock \<Rightarrow> if sock = [] then s1 else emit sock (EvNotification n) s1))"

definition createNotifications ::
  "hub \<Rightarrow> message \<Rightarrow> string list \<Rightarrow> (nat \<Rightarrow> string) \<Rightarrow> (nat \<Rightarrow> instant) \<Rightarrow> notification list \<times> hub" where
  "createNotifications s m mentions u t =
     (let notifications = List.map_filter (notification_for s m u t) (enumerate 0 mentions)
      in (notifications, foldl deliver_notification s notifications))"

subsection \<open>Sending and broadcasting\<close>

text \<open>
  \<open>POST /api/send\<close>. \<open>u_msg\<close> and \<open>t_msg\<close> are the id and timestamp of the message,
  \<open>t_active\<close> the \<open>new Date()\<close> of \<open>lastActive\<close>, \<open>u\<close> and \<open>t\<close> those of
  \<open>createNotifications\<close>. The payload is \<open>messageId\<close> and \<open>mentions\<close>.
\<close>

definition api_send ::
  "hub \<Rightarrow> string \<Rightarrow> string \<Rightarrow> json option \<Rightarrow> string \<Rightarrow> instant \<Rightarrow> instant \<Rightarrow>
   (nat \<Rightarrow> string) \<Rightarrow> (nat \<Rightarrow> instant) \<Rightarrow> (string \<times> string list) response \<times> hub" where
  "api_send s agentId content metadata u_msg t_msg t_active u t =
     (case map_get (agents s) agentId of
        None \<Rightarrow> (Failed 404 ''Agent not found'', s)
      | Some agent \<Rightarrow>
          (let mentions = parseMentions content;
               message = \<lparr>msg_id = u_msg, msg_type = ''message'', msg_agentId = Some agentId,
                          msg_agentName = Some (agent_name agent), msg_content = content,
                          msg_mentions = Some mentions,
                          msg_metadata = Some (case metadata of None \<Rightarrow> JObj [] | Some j \<Rightarrow> j),
                          msg_timestamp = toISOString t_msg, msg_room = agent_room agent,
                          msg_from = None\<rparr>
           in case map_get (messages s) (agent_room agent) of
                None \<Rightarrow> (Thrown, s)
              | Some log \<Rightarrow>
                  (let s1 = s\<lparr>messages := map_set (messages s) (agent_room agent) (log @ [message])\<rparr>;
                       s2 = s1\<lparr>db := (db s1)\<lparr>db_messages :=
                              insert_row mr_id (row_of_message message (agent_name agent))
                                (db_messages (db s1))\<rparr>\<rparr>;
                       s3 = s2\<lparr>agents := map_set (agents s2) agentId
                                  (agent\<lparr>agent_lastActive := toISOString t_active\<rparr>)\<rparr>;
                       s4 = s3\<lparr>db := (db s3)\<lparr>db_agents :=
                              update_last_active (toISOString t_active) agentId
                                (db_agents (db s3))\<rparr>\<rparr>;
                       s5 = (if mentions \<noteq> [] then snd (createNotifications s4 message mentions u t)
                             else s4);
                       s6 = emit (agent_room agent) (EvMessage message) s5
                   in (Replied (u_msg, mentions), s6))))"

text \<open>
  \<open>POST /api/broadcast/:room\<close>; \<open>from\<close> defaults to \<open>Orchestrator\<close>. The message is
  pushed only when the room has a log (\<open>messages.get(roomName)?.push\<close>), is written to
  no table, and is emitted in either case. The payload is \<open>messageId\<close>.
\<close>

definition broadcast_message :: "string \<Rightarrow> string \<Rightarrow> string option \<Rightarrow> string \<Rightarrow> instant \<Rightarrow> message" where
  "broadcast_message roomName content sender u_msg t_msg =
     (let from = (case sender of None \<Rightarrow> ''Orchestrator'' | Some f \<Rightarrow> f)
      in \<lparr>msg_id = u_msg, msg_type = ''broadcast'', msg_agentId = None, msg_agentName = None,
           msg_content = ''['' @ from @ ''] '' @ content, msg_mentions = None,
           msg_metadata = None, msg_timestamp = toISOString t_msg, msg_room = roomName,
           msg_from = Some from\<rparr>)"

definition push_if_present :: "hub \<Rightarrow> string \<Rightarrow> message \<Rightarrow> hub" where
  "push_if_present s roomName m =
     (case map_get (messages s) roomName of
        None \<Rightarrow> s
      | Some log \<Rightarrow> s\<lparr>messages := map_set (messages s) roomName (log @ [m])\<rparr>)"

definition api_broadcast ::
  "hub \<Rightarrow> string \<Rightarrow> string \<Rightarrow> string option \<Rightarrow> string \<Rightarrow> instant \<Rightarrow> string response \<times> hub" where
  "api_broadcast s roomName content sender u_msg t_msg =
     (let message = broadcast_message roomName content sender u_msg t_msg;
          s1 = push_if_present s roomName message;
          s2 = emit roomName (EvMessage message) s1
      in (Replied u_msg, s2))"

text \<open>
  A callback of the watcher of room \<open>roomName\<close> (\<open>change\<close>, \<open>add\<close> or \<open>unlink\<close>, with the
  words \<open>modified\<close>, \<open>created\<close>, \<open>deleted\<close> and the actions \<open>change\<close>, \<open>add\<close>, \<open>delete\<close>):
  the message goes to the log in memory and to the sockets, not to the database.
\<close>

datatype file_event = Change | Add | Unlink

fun file_event_word :: "file_event \<Rightarrow> string" where
  "file_event_word Change = ''modified''"
| "file_event_word Add = ''created''"
| "file_event_word Unlink = ''deleted''"

fun file_event_action :: "file_event \<Rightarrow> string" where
  "file_event_action Change = ''change''"
| "file_event_action Add = ''add''"
| "file_event_action Unlink = ''delete''"

definition watcher_callback :: "hub \<Rightarrow> string \<Rightarrow> file_event \<Rightarrow> string \<Rightarrow> string \<Rightarrow> instant \<Rightarrow> hub" where
  "watcher_callback s roomName ev relativePath u_msg t_msg =
     (let message = \<lparr>msg_id = u_msg, msg_type = ''file_change'', msg_agentId = None,
                      msg_agentName = None,
                      msg_content = ''File '' @ file_event_word ev @ '': '' @ relativePath,
                      msg_mentions = None,
                      msg_metadata = Some (JObj [(''filePath'', JStr relativePath),
                                                 (''action'', JStr (file_event_action ev))]),
                      msg_timestamp = toISOString t_msg, msg_room = roomName, msg_from = None\<rparr>
      in emit roomName (EvMessage message) (push_if_present s roomName message))"

subsection \<open>Reading messages and rooms\<close>

text \<open>
  Numbers as far as the handler needs them: \<open>NaN\<close> or an integer. \<open>parseInt\<close> with no
  radix skips leading white space, reads a sign, takes \<open>0x\<close> or \<open>0X\<close> as the mark of
  radix 16, and reads digits as far as they go; no digit gives \<open>NaN\<close>. White space is
  what JavaScript skips among the characters a HOL \<open>char\<close> can hold: tab, line feed,
  vertical tab, form feed, carriage return, space and the no-break space U+00A0.
\<close>

datatype jsnum = NaN | Num int

definition is_ws :: "char \<Rightarrow> bool" where
  "is_ws c = (of_char c \<in> {9, 10, 11, 12, 13, 32, 160 :: nat})"

definition digit_value :: "char \<Rightarrow> nat option" where
  "digit_value c =
     (let n = (of_char c :: nat)
      in if 48 \<le> n \<and> n \<le> 57 then Some (n - 48)
         else if 97 \<le> n \<and> n \<le> 102 then Some (n - 87)
         else if 65 \<le> n \<and> n \<le> 70 then Some (n - 55)
         else None)"

definition is_digit :: "nat \<Rightarrow> char \<Rightarrow> bool" where
  "is_digit radix c = (case digit_value c of None \<Rightarrow> False | Some d \<Rightarrow> d < radix)"

definition digits_value :: "nat \<Rightarrow> string \<Rightarrow> int" where
  "digits_value radix z =
     foldl (\<lambda>acc c. acc * int radix + int (case digit_value c of None \<Rightarrow> 0 | Some d \<Rightarrow> d)) 0 z"

fun strip_sign :: "string \<Rightarrow> int \<times> string" where
  "strip_sign [] = (1, [])"
| "strip_sign (c # r) =
     (if c = CHR ''-'' then (- 1, r) else if c = CHR ''+'' then (1, r) else (1, c # r))"

fun strip_radix :: "string \<Rightarrow> nat \<times> string" where
  "strip_radix (a # b # r) =
     (if a = CHR ''0'' \<and> (b = CHR ''x'' \<or> b = CHR ''X'') then (16, r) else (10, a # b # r))"
| "strip_radix s = (10, s)"

definition parseInt :: "string \<Rightarrow> jsnum" where
  "parseInt str =
     (case strip_sign (dropWhile is_ws str) of
        (sign, s1) \<Rightarrow>
          (case strip_radix s1 of
             (radix, s2) \<Rightarrow>
               (let z = takeWhile (is_digit radix) s2
                in if z = [] then NaN else Num (sign * digits_value radix z))))"

text \<open>Unary minus, and \<open>Array.prototype.slice\<close> with one argument.\<close>

fun js_neg :: "jsnum \<Rightarrow> jsnum" where
  "js_neg NaN = NaN"
| "js_neg (Num n) = Num (- n)"

fun js_slice :: "jsnum \<Rightarrow> 'a list \<Rightarrow> 'a list" where
  "js_slice NaN xs = xs"
| "js_slice (Num k) xs =
     (if k < 0 then drop (nat (max (int (length xs) + k) 0)) xs
      else drop (nat (min k (int (length xs)))) xs)"

text \<open>
  \<open>GET /api/messages/:room\<close>. \<open>since\<close> and \<open>limit\<close> are the query parameters, \<open>None\<close>
  when absent. \<open>parseDate x\<close> is \<open>new Date(x).getTime()\<close>, \<open>None\<close> for \<open>NaN\<close>; a
  comparison with \<open>NaN\<close> is false. The default \<open>limit\<close> is the number 100. The payload
  is \<open>messages\<close>.
\<close>

definition later_than :: "int option \<Rightarrow> int option \<Rightarrow> bool" where
  "later_than a b = (case a of None \<Rightarrow> False | Some x \<Rightarrow> (case b of None \<Rightarrow> False | Some y \<Rightarrow> x > y))"

definition since_filter :: "(string \<Rightarrow> int option) \<Rightarrow> string option \<Rightarrow> message list \<Rightarrow> message list" where
  "since_filter parseDate since roomMessages =
     (case since of
        None \<Rightarrow> roomMessages
      | Some sn \<Rightarrow>
          if sn = [] then roomMessages
          else filter (\<lambda>m. later_than (parseDate (msg_timestamp m)) (parseDate sn)) roomMessages)"

definition room_messages :: "hub \<Rightarrow> string \<Rightarrow> message list" where
  "room_messages s room = (case map_get (messages s) room of None \<Rightarrow> [] | Some log \<Rightarrow> log)"

definition api_messages ::
  "(string \<Rightarrow> int option) \<Rightarrow> hub \<Rightarrow> string \<Rightarrow> string option \<Rightarrow> string option \<Rightarrow> message list" where
  "api_messages parseDate s room since limit =
     (let roomMessages = since_filter parseDate since (room_messages s room);
          n = (case limit of None \<Rightarrow> Num 100 | Some l \<Rightarrow> parseInt l)
      in js_slice (js_neg n) roomMessages)"

text \<open>\<open>GET /api/rooms\<close>: name, agentCount, agents and createdAt of every room.\<close>

definition api_rooms :: "hub \<Rightarrow> (string \<times> nat \<times> agent list \<times> string) list" where
  "api_rooms s =
     map (\<lambda>(name, room).
            (name, length (room_agents room),
             List.map_filter (map_get (agents s)) (room_agents room), room_createdAt room))
         (rooms s)"

subsection \<open>Agent memory\<close>

text \<open>
  \<open>POST /api/memory/:agentId\<close>. \<open>expiresIn\<close> is a number of seconds (\<open>None\<close> when
  absent); \<open>now\<close> is \<open>Date.now()\<close> and \<open>t_created\<close> the \<open>new Date()\<close> of \<open>createdAt\<close>.
  The payload is \<open>memoryId\<close> and the row.
\<close>

definition api_memory_post ::
  "hub \<Rightarrow> string \<Rightarrow> string \<Rightarrow> string \<Rightarrow> string option \<Rightarrow> int option \<Rightarrow> string \<Rightarrow> instant \<Rightarrow> instant \<Rightarrow>
   (string \<times> memory_row) response \<times> hub" where
  "api_memory_post s agentId key val type expiresIn memoryId now t_created =
     (case map_get (agents s) agentId of
        None \<Rightarrow> (Failed 404 ''Agent not found'', s)
      | Some agent \<Rightarrow>
          (let expiresAt = (case expiresIn of
                              None \<Rightarrow> None
                            | Some e \<Rightarrow> if e = 0 then None else Some (toISOString (now + e * 1000)));
               memory = \<lparr>mem_id = memoryId, mem_agent_id = agentId, mem_room = agent_room agent,
                         mem_key = key, mem_value = val,
                         mem_type = (case type of None \<Rightarrow> ''note'' | Some ty \<Rightarrow> ty),
                         mem_created_at = toISOString t_created, mem_expires_at = expiresAt\<rparr>
           in (Replied (memoryId, memory),
               s\<lparr>db := (db s)\<lparr>db_agent_memory :=
                    insert_row mem_id memory (db_agent_memory (db s))\<rparr>\<rparr>)))"

text \<open>
  \<open>GET /api/memory/:agentId\<close> at instant \<open>now\<close>. The query compares the text in
  \<open>expires_at\<close> with the text that \<open>datetime('now')\<close> returns: both operands are text, so
  SQLite compares them byte by byte. \<open>err\<close> is the error that \<open>db.all\<close> hands to the
  callback. The rows come newest first by \<open>created_at\<close>, compared as text.
\<close>

definition truthy_text :: "string option \<Rightarrow> bool" where
  "truthy_text x = (case x of None \<Rightarrow> False | Some v \<Rightarrow> v \<noteq> [])"

definition memory_selected ::
  "string \<Rightarrow> string option \<Rightarrow> string option \<Rightarrow> instant \<Rightarrow> memory_row \<Rightarrow> bool" where
  "memory_selected agentId key type now r =
     (mem_agent_id r = agentId \<and>
      (case mem_expires_at r of None \<Rightarrow> True | Some e \<Rightarrow> e > sqlite_datetime now) \<and>
      (if truthy_text key then Some (mem_key r) = key else True) \<and>
      (if truthy_text type then Some (mem_type r) = type else True))"

definition api_memory_get ::
  "hub \<Rightarrow> string \<Rightarrow> string option \<Rightarrow> string option \<Rightarrow> instant \<Rightarrow> bool \<Rightarrow> memory_row list response" where
  "api_memory_get s agentId key type now err =
     (if err then Failed 500 ''Database error''
      else Replied (rev (sort_key mem_created_at
                      (filter (memory_selected agentId key type now) (db_agent_memory (db s))))))"

subsection \<open>Marking a notification read\<close>

text \<open>
  \<open>POST /api/notifications/:notificationId/read\<close> runs
  \<open>UPDATE notifications SET is_read = 1 WHERE id = ?\<close>; \<open>this.changes\<close> is the number of
  rows that the statement updated, which is the number of rows that satisfy its \<open>WHERE\<close>
  clause, whatever \<open>is_read\<close> was before. The payload is \<open>updated\<close>.
\<close>

definition mark_read :: "string \<Rightarrow> notification \<Rightarrow> notification" where
  "mark_read nid n = (if notif_id n = nid then n\<lparr>notif_is_read := True\<rparr> else n)"

definition api_notification_read :: "hub \<Rightarrow> string \<Rightarrow> bool \<Rightarrow> bool response \<times> hub" where
  "api_notification_read s notificationId err =
     (if err then (Failed 500 ''Database error'', s)
      else (let changes = length (filter (\<lambda>n. notif_id n = notificationId) (db_notifications (db s)))
            in (Replied (changes > 0),
                s\<lparr>db := (db s)\<lparr>db_notifications :=
                     map (mark_read notificationId) (db_notifications (db s))\<rparr>\<rparr>)))"

subsection \<open>Start-up\<close>

text \<open>
  \<open>loadDataFromDatabase\<close>: every active row of \<open>rooms\<close> becomes a room with no agents
  and an empty message log; no other table is read. \<open>None\<close> is the rejected promise
  (\<open>err\<close> from \<open>db.all\<close>). The \<open>CREATE TABLE IF NOT EXISTS\<close> statements of
  \<open>initializeSystem\<close> leave existing tables as they are.
\<close>

definition load_room :: "hub \<Rightarrow> room_row \<Rightarrow> hub" where
  "load_room s row =
     s\<lparr>rooms := map_set (rooms s) (rr_name row)
                  \<lparr>room_name = rr_name row, room_agents = [], room_createdAt = rr_created_at row,
                   room_isActive = rr_is_active row, room_settings = rr_settings row\<rparr>,
       messages := map_set (messages s) (rr_name row) []\<rparr>"

definition loadDataFromDatabase :: "hub \<Rightarrow> bool \<Rightarrow> hub option" where
  "loadDataFromDatabase s err =
     (if err then None
      else Some (foldl load_room s (filter rr_is_active (db_rooms (db s)))))"

text \<open>Stopping the process and starting it again on the same database.\<close>

definition restart :: "hub \<Rightarrow> hub option" where
  "restart s = loadDataFromDatabase (fresh_process (db s)) False"

subsection \<open>Sockets, and the states the hub can be in\<close>

text \<open>
  The \<open>register\<close> event of a socket: an agent that exists gets the id of the socket (and
  the socket joins the room, which is not part of the state modelled here).
\<close>

definition socket_register :: "hub \<Rightarrow> string \<Rightarrow> string \<Rightarrow> hub" where
  "socket_register s agentId socketId =
     (case map_get (agents s) agentId of
        None \<Rightarrow> s
      | Some agent \<Rightarrow> s\<lparr>agents := map_set (agents s) agentId (agent\<lparr>agent_socketId := Some socketId\<rparr>)\<rparr>)"

text \<open>
  The states of a running hub: what start-up leaves on some database, and what the
  handlers and callbacks above make of a state of a running hub. (The task endpoints
  and the \<open>message\<close> event of a socket touch none of the fields modelled.)
\<close>

inductive reachable :: "hub \<Rightarrow> bool" where
  start: "loadDataFromDatabase (fresh_process d) False = Some s \<Longrightarrow> reachable s"
| join: "reachable s \<Longrightarrow>
         reachable (snd (api_join s roomName agentId agentName caps u_room t_room t_joined t_active u_msg t_msg))"
| leave: "reachable s \<Longrightarrow> reachable (snd (api_leave s agentId u_msg t_msg))"
| send: "reachable s \<Longrightarrow> reachable (snd (api_send s agentId content metadata u_msg t_msg t_active u t))"
| broadcast: "reachable s \<Longrightarrow> reachable (snd (api_broadcast s roomName content sender u_msg t_msg))"
| watcher: "reachable s \<Longrightarrow> reachable (watcher_callback s roomName ev relativePath u_msg t_msg)"
| memory: "reachable s \<Longrightarrow>
           reachable (snd (api_memory_post s agentId key val type expiresIn memoryId now t_created))"
| read: "reachable s \<Longrightarrow> reachable (snd (api_notification_read s notificationId err))"
| register: "reachable s \<Longrightarrow> reachable (socket_register s agentId socketId)"

text \<open>
  Every room has a message log, and the room of every agent in the agent map is a room
  of the room map.
\<close>

definition hub_inv :: "hub \<Rightarrow> bool" where
  "hub_inv s =
     ((\<forall>k. map_has (rooms s) k \<longrightarrow> map_has (messages s) k) \<and>
      (\<forall>k a. map_get (agents s) k = Some a \<longrightarrow> map_has (rooms s) (agent_room a)))"

subsection \<open>A run of the hub\<close>

text \<open>
  On an empty database, Alice (\<open>a1\<close>) and Bob (\<open>a2\<close>) join the room \<open>lab\<close> at
  2026-01-01T10:00:00Z and one second later; then Alice sends \<open>hello @Bob\<close>.
\<close>

definition lab_hub :: hub where
  "lab_hub =
     snd (api_join
            (snd (api_join (fresh_process empty_database) ''lab'' ''a1'' ''Alice'' None
                    ''r1'' 1767261600000 1767261600000 1767261600000 ''m1'' 1767261600000))
            ''lab'' ''a2'' ''Bob'' None ''r2'' 1767261601000 1767261601000 1767261601000 ''m2''
            1767261601000)"

definition lab_sent :: hub where
  "lab_sent =
     snd (api_send lab_hub ''a1'' ''hello @Bob'' None ''m3'' 1767261602000 1767261602000
            (\<lambda>i. ''n1'') (\<lambda>i. 1767261602000))"

text \<open>The agents and the join messages of that run.\<close>

definition alice :: agent where
  "alice = \<lparr>agent_id = ''a1'', agent_name = ''Alice'', agent_room = ''lab'',
     agent_capabilities = JObj [], agent_joinedAt = ''2026-01-01T10:00:00.000Z'',
     agent_lastActive = ''2026-01-01T10:00:00.000Z'', agent_socketId = None,
     agent_status = ''active''\<rparr>"

definition bob :: agent where
  "bob = \<lparr>agent_id = ''a2'', agent_name = ''Bob'', agent_room = ''lab'',
     agent_capabilities = JObj [], agent_joinedAt = ''2026-01-01T10:00:01.000Z'',
     agent_lastActive = ''2026-01-01T10:00:01.000Z'', agent_socketId = None,
     agent_status = ''active''\<rparr>"

definition joined :: "string \<Rightarrow> string \<Rightarrow> string \<Rightarrow> message" where
  "joined u who ts = \<lparr>msg_id = u, msg_type = ''system'', msg_agentId = None,
     msg_agentName = Some ''System'', msg_content = who @ '' has joined the room'',
     msg_mentions = Some [], msg_metadata = Some (JObj [(''type'', JStr ''join'')]),
     msg_timestamp = ts, msg_room = ''lab'', msg_from = None\<rparr>"

text \<open>
  The same run with a message that names Bob twice, each notification with its own id.
\<close>

definition bob_twice :: hub where
  "bob_twice = snd (api_send lab_hub ''a1'' ''@Bob ping @Bob'' None ''m3'' 1767261602000
     1767261602000 (\<lambda>i. if i = 0 then ''n1'' else ''n2'') (\<lambda>i. 1767261602000))"

text \<open>
  After the run, Alice stores a memory at 10:00:02 that expires one second later
  (\<open>lab_memory\<close>); and, apart from that, ninety-nine broadcasts bring the log of \<open>lab\<close>
  to 101 messages (\<open>crowded_hub\<close>).
\<close>

definition lab_memory :: hub where
  "lab_memory = snd (api_memory_post lab_hub ''a1'' ''k'' ''v'' None (Some 1) ''mem1''
                       1767261602000 1767261602000)"

definition crowded_hub :: hub where
  "crowded_hub =
     foldl (\<lambda>s i. snd (api_broadcast s ''lab'' ''tick'' None (''b'' @ pad3 i) 1767261603000))
       lab_hub [0..<99]"

subsection \<open>Counting notification rows\<close>

text \<open>
  \<open>resolves_to s aid name\<close>: \<open>findAgentByName\<close> finds an agent for \<open>name\<close>, its id is
  \<open>aid\<close>, and the id is truthy. \<open>rows_for aid tbl\<close> counts the rows of \<open>tbl\<close> whose
  recipient is \<open>aid\<close>.
\<close>

definition resolves_to :: "hub \<Rightarrow> string \<Rightarrow> string \<Rightarrow> bool" where
  "resolves_to s aid name =
     (case findAgentByName s name of None \<Rightarrow> False | Some a \<Rightarrow> agent_id a = aid \<and> agent_id a \<noteq> [])"

definition rows_for :: "string \<Rightarrow> notification list \<Rightarrow> nat" where
  "rows_for aid tbl = length (filter (\<lambda>n. notif_agent_id n = aid) tbl)"

subsection \<open>The shared filesystem\<close>

text \<open>
  Modelled from the spec: no source file reads, writes, lists or deletes a file of the
  shared directory on behalf of an agent (the README names the tools \<open>file_read\<close>,
  \<open>file_write\<close>, \<open>file_list\<close> and \<open>file_delete\<close>, and the hub only watches the
  directory). The definitions of this subsection follow section 4.7 of the
  specification: operations rooted at a configured directory; every path argument is
  resolved against the root, normalized, and must then lie inside the root; \<open>..\<close>,
  absolute paths and symbolic links that lead outside fail with a path-escape error;
  write creates parent directories as needed.
\<close>

text \<open>
  Modelled from the spec: a path is the list of its segments from the filesystem root;
  a filesystem maps paths to files, directories and symbolic links (with absolute
  targets).
\<close>

type_synonym path = "string list"

datatype node = File string | Dir | Link path

type_synonym filesystem = "(path \<times> node) list"

datatype fs_error = PathEscape | NotFound | TooManyLinks

text \<open>Modelled from the spec: the segments of a path argument, split at \<open>/\<close>.\<close>

fun split_path :: "string \<Rightarrow> path" where
  "split_path [] = [[]]"
| "split_path (c # cs) =
     (if c = CHR ''/'' then [] # split_path cs
      else (case split_path cs of [] \<Rightarrow> [[c]] | part # parts \<Rightarrow> (c # part) # parts))"

text \<open>
  Modelled from the spec: normalization. Empty segments and \<open>.\<close> are dropped, \<open>..\<close>
  drops the segment before it (and nothing at the filesystem root).
\<close>

fun normalize :: "path \<Rightarrow> path \<Rightarrow> path" where
  "normalize acc [] = acc"
| "normalize acc (x # xs) =
     (if x = [] \<or> x = ''.'' then normalize acc xs
      else if x = ''..'' then normalize (butlast acc) xs
      else normalize (acc @ [x]) xs)"

text \<open>
  Modelled from the spec: a path argument resolved against the root. An absolute
  argument is resolved from the filesystem root.
\<close>

definition resolve :: "path \<Rightarrow> string \<Rightarrow> path" where
  "resolve root arg =
     (case arg of
        [] \<Rightarrow> normalize root []
      | c # cs \<Rightarrow> if c = CHR ''/'' then normalize [] (split_path arg)
                 else normalize root (split_path arg))"

text \<open>
  Modelled from the spec: following symbolic links, segment by segment; \<open>n\<close> bounds the
  number of links followed, \<open>None\<close> when it is exceeded.
\<close>

fun realpath :: "nat \<Rightarrow> filesystem \<Rightarrow> path \<Rightarrow> path \<Rightarrow> path option" where
  "realpath n fs acc [] = Some acc"
| "realpath n fs acc (x # xs) =
     (case map_of fs (acc @ [x]) of
        Some (Link target) \<Rightarrow> (if n = 0 then None else realpath (n - 1) fs [] (target @ xs))
      | _ \<Rightarrow> realpath n fs (acc @ [x]) xs)"

text \<open>Modelled from the spec: \<open>inside root p\<close>, the path \<open>p\<close> lies inside \<open>root\<close>.\<close>

fun inside :: "path \<Rightarrow> path \<Rightarrow> bool" where
  "inside [] p = True"
| "inside (r # rs) [] = False"
| "inside (r # rs) (x # xs) = (r = x \<and> inside rs xs)"

text \<open>
  Modelled from the spec: the check every operation makes on its path argument, and the
  arguments that it refuses as escaping (\<open>escapes\<close>).
\<close>

definition sandboxed :: "path \<Rightarrow> filesystem \<Rightarrow> string \<Rightarrow> fs_error + path" where
  "sandboxed root fs arg =
     (case realpath 40 fs [] (resolve root arg) of
        None \<Rightarrow> Inl TooManyLinks
      | Some p \<Rightarrow> if inside root p then Inr p else Inl PathEscape)"

definition escapes :: "path \<Rightarrow> filesystem \<Rightarrow> string \<Rightarrow> bool" where
  "escapes root fs arg =
     (case realpath 40 fs [] (resolve root arg) of None \<Rightarrow> False | Some p \<Rightarrow> \<not> inside root p)"

text \<open>
  Modelled from the spec: writing an entry, and creating the missing directories
  between the root and a path.
\<close>

fun fs_put :: "filesystem \<Rightarrow> path \<Rightarrow> node \<Rightarrow> filesystem" where
  "fs_put [] p nd = [(p, nd)]"
| "fs_put ((q, old) # fs) p nd = (if q = p then (p, nd) # fs else (q, old) # fs_put fs p nd)"

definition make_dir :: "filesystem \<Rightarrow> path \<Rightarrow> filesystem" where
  "make_dir fs p = (case map_of fs p of None \<Rightarrow> fs_put fs p Dir | Some nd \<Rightarrow> fs)"

definition parents_below :: "path \<Rightarrow> path \<Rightarrow> path list" where
  "parents_below root p = map (\<lambda>k. take k p) [Suc (length root)..<length p]"

text \<open>
  Modelled from the spec: the four operations. Each returns its result, or an error,
  and the filesystem after it.
\<close>

definition fs_read :: "path \<Rightarrow> filesystem \<Rightarrow> string \<Rightarrow> (fs_error + string) \<times> filesystem" where
  "fs_read root fs arg =
     (case sandboxed root fs arg of
        Inl e \<Rightarrow> (Inl e, fs)
      | Inr p \<Rightarrow> (case map_of fs p of Some (File c) \<Rightarrow> (Inr c, fs) | _ \<Rightarrow> (Inl NotFound, fs)))"

definition fs_write ::
  "path \<Rightarrow> filesystem \<Rightarrow> string \<Rightarrow> string \<Rightarrow> (fs_error + unit) \<times> filesystem" where
  "fs_write root fs arg content =
     (case sandboxed root fs arg of
        Inl e \<Rightarrow> (Inl e, fs)
      | Inr p \<Rightarrow> (Inr (), fs_put (foldl make_dir fs (parents_below root p)) p (File content)))"

definition fs_list :: "path \<Rightarrow> filesystem \<Rightarrow> string \<Rightarrow> (fs_error + string list) \<times> filesystem" where
  "fs_list root fs arg =
     (case sandboxed root fs arg of
        Inl e \<Rightarrow> (Inl e, fs)
      | Inr p \<Rightarrow> (Inr (map (\<lambda>e. last (fst e)) (filter (\<lambda>e. fst e \<noteq> [] \<and> butlast (fst e) = p) fs)), fs))"

definition fs_delete :: "path \<Rightarrow> filesystem \<Rightarrow> string \<Rightarrow> (fs_error + unit) \<times> filesystem" where
  "fs_delete root fs arg =
     (case sandboxed root fs arg of
        Inl e \<Rightarrow> (Inl e, fs)
      | Inr p \<Rightarrow> (case map_of fs p of
                  None \<Rightarrow> (Inl NotFound, fs)
                | Some nd \<Rightarrow> (Inr (), filter (\<lambda>e. fst e \<noteq> p) fs)))"

text \<open>
  Modelled from the spec: a root \<open>/srv/shared\<close> and a filesystem with a file outside the
  root, a file inside it, and a link inside it that points outside.
\<close>

definition shared_root :: path where
  "shared_root = [''srv'', ''shared'']"

definition demo_fs :: filesystem where
  "demo_fs = [([''etc'', ''passwd''], File ''root''), ([''srv'', ''shared'', ''notes.md''], File ''hi''),
              ([''srv'', ''shared'', ''out''], Link [''etc''])]"

section \<open>Properties\<close>

subsection \<open>The matcher on the mention expression\<close>

lemma rmatch_Star_WordCh_Cons:
  "rmatch (Star WordCh) (x # xs) = (if is_word x then rmatch (Star WordCh) xs @ [x # xs] else [x # xs])"
  by (subst rmatch_Star) simp

lemma rmatch_Star_nonempty: "rmatch (Star r) s \<noteq> []"
  by (subst rmatch_Star) simp

lemma hd_rmatch_Star_WordCh: "hd (rmatch (Star WordCh) s) = dropWhile is_word s"
proof (induction s)
  case Nil
  show ?case by (subst rmatch_Star) simp
next
  case (Cons x xs)
  then show ?case by (simp add: rmatch_Star_WordCh_Cons rmatch_Star_nonempty)
qed

lemma rmatch_Plus_WordCh:
  "rmatch (Plus WordCh) s = (case s of [] \<Rightarrow> [] | x # xs \<Rightarrow> if is_word x then rmatch (Star WordCh) xs else [])"
  by (simp add: Plus_def split: list.splits)

lemma rmatch_Plus_WordCh_empty: "\<not> starts_word s \<Longrightarrow> rmatch (Plus WordCh) s = []"
  by (cases s) (simp_all add: rmatch_Plus_WordCh)

lemma rmatch_Plus_WordCh_hd:
  "starts_word s \<Longrightarrow> rmatch (Plus WordCh) s \<noteq> [] \<and> hd (rmatch (Plus WordCh) s) = dropWhile is_word s"
  by (cases s) (simp_all add: rmatch_Plus_WordCh rmatch_Star_nonempty hd_rmatch_Star_WordCh)



lemma rmatch_seg_empty: "\<not> (\<exists>t. s = CHR ''-'' # t \<and> starts_word t) \<Longrightarrow> rmatch seg s = []"
  by (cases s) (auto simp: seg_def rmatch_Plus_WordCh_empty)

lemma rmatch_seg_hd:
  "starts_word t \<Longrightarrow> rmatch seg (CHR ''-'' # t) \<noteq> [] \<and> hd (rmatch seg (CHR ''-'' # t)) = dropWhile is_word t"
  by (simp add: seg_def rmatch_Plus_WordCh_hd)

lemma hd_concat_map:
  "xs \<noteq> [] \<Longrightarrow> f (hd xs) \<noteq> [] \<Longrightarrow> hd (concat (map f xs)) = hd (f (hd xs))"
  by (cases xs) simp_all

lemma concat_map_nonempty:
  "xs \<noteq> [] \<Longrightarrow> f (hd xs) \<noteq> [] \<Longrightarrow> concat (map f xs) \<noteq> []"
  by (cases xs) simp_all

lemma hd_rmatch_Star_seg: "hd (rmatch (Star seg) s) = snd (spec_segments s)"
proof (induction s rule: spec_segments.induct)
  case 1
  show ?case by (subst rmatch_Star) (simp add: rmatch_seg_empty)
next
  case (2 c t)
  show ?case
  proof (cases "c = CHR ''-'' \<and> starts_word t")
    case False
    then have "rmatch seg (c # t) = []" by (intro rmatch_seg_empty) auto
    with False show ?thesis by (subst rmatch_Star) auto
  next
    case True
    let ?d = "dropWhile is_word t"
    from True rmatch_seg_hd[of t] have ne: "rmatch seg (c # t) \<noteq> []" and h: "hd (rmatch seg (c # t)) = ?d"
      by auto
    have len: "length ?d < length (c # t)"
      using length_dropWhile_le[of is_word t] by simp
    let ?f = "\<lambda>s'. if length s' < length (c # t) then rmatch (Star seg) s' else []"
    have "?f (hd (rmatch seg (c # t))) = rmatch (Star seg) ?d" using h len by simp
    then have fne: "?f (hd (rmatch seg (c # t))) \<noteq> []" by (simp add: rmatch_Star_nonempty)
    have cne: "concat (map ?f (rmatch seg (c # t))) \<noteq> []"
      using ne fne by (rule concat_map_nonempty[where f = ?f])
    have "hd (rmatch (Star seg) (c # t)) = hd (concat (map ?f (rmatch seg (c # t))))"
      by (subst rmatch_Star) (rule hd_append2[OF cne])
    also have "\<dots> = hd (?f (hd (rmatch seg (c # t))))"
      using ne fne by (rule hd_concat_map[where f = ?f])
    also have "\<dots> = hd (rmatch (Star seg) ?d)" using h len by simp
    also have "\<dots> = snd (spec_segments ?d)" using 2 True by simp
    also have "\<dots> = snd (spec_segments (c # t))" using True by (simp split: prod.splits)
    finally show ?thesis .
  qed
qed

lemma rmatch_mentionGroup_empty: "\<not> starts_word s \<Longrightarrow> rmatch mentionGroup s = []"
  by (simp add: mentionGroup_def rmatch_Plus_WordCh_empty)

lemma rmatch_mentionGroup_hd:
  assumes "starts_word s"
  shows "rmatch mentionGroup s \<noteq> [] \<and> hd (rmatch mentionGroup s) = snd (spec_segments (dropWhile is_word s))"
proof -
  from assms rmatch_Plus_WordCh_hd[of s]
  have ne: "rmatch (Plus WordCh) s \<noteq> []" and h: "hd (rmatch (Plus WordCh) s) = dropWhile is_word s" by auto
  have fne: "rmatch (Star seg) (hd (rmatch (Plus WordCh) s)) \<noteq> []" by (rule rmatch_Star_nonempty)
  have eq: "rmatch mentionGroup s = concat (map (rmatch (Star seg)) (rmatch (Plus WordCh) s))"
    by (simp add: mentionGroup_def seg_def)
  have "rmatch mentionGroup s \<noteq> []" using ne fne unfolding eq by (cases "rmatch (Plus WordCh) s") simp_all
  moreover have "hd (rmatch mentionGroup s) = hd (rmatch (Star seg) (hd (rmatch (Plus WordCh) s)))"
    unfolding eq using ne fne by (rule hd_concat_map[where f = "rmatch (Star seg)"])
  ultimately show ?thesis by (simp add: h hd_rmatch_Star_seg)
qed

lemma rmatch_mentionRegex:
  "rmatch mentionRegex s = (case s of [] \<Rightarrow> [] | c # t \<Rightarrow> if c = CHR ''@'' then rmatch mentionGroup t else [])"
  by (simp add: mentionRegex_def split: list.splits)

lemma spec_segments_append: "fst (spec_segments s) @ snd (spec_segments s) = s"
  by (induction s rule: spec_segments.induct) (auto split: prod.splits)

lemma take_length_diff: "s = p @ r \<Longrightarrow> take (length s - length r) s = p"
  by simp

lemma exec_Nil: "exec mentionRegex [] = None"
  by (simp add: exec.simps[of _ "[]"] rmatch_mentionRegex)

lemma exec_Cons_skip:
  "\<not> (c = CHR ''@'' \<and> starts_word s) \<Longrightarrow> exec mentionRegex (c # s) = exec mentionRegex s"
  by (subst exec.simps) (auto simp: rmatch_mentionRegex rmatch_mentionGroup_empty)

lemma exec_Cons_match:
  assumes "starts_word s"
  shows "exec mentionRegex (CHR ''@'' # s) =
    Some (CHR ''@'' # takeWhile is_word s @ fst (spec_segments (dropWhile is_word s)),
          snd (spec_segments (dropWhile is_word s)))"
proof -
  let ?r = "snd (spec_segments (dropWhile is_word s))"
  let ?p = "CHR ''@'' # takeWhile is_word s @ fst (spec_segments (dropWhile is_word s))"
  from rmatch_mentionGroup_hd[OF assms] obtain rs where grp: "rmatch mentionGroup s = ?r # rs"
    by (cases "rmatch mentionGroup s") auto
  have "CHR ''@'' # s = ?p @ ?r"
    by (simp add: spec_segments_append)
  then have "take (length (CHR ''@'' # s) - length ?r) (CHR ''@'' # s) = ?p"
    by (rule take_length_diff)
  then show ?thesis
    by (subst exec.simps) (simp add: rmatch_mentionRegex grp)
qed

lemma parseMentions_loop_spec: "parseMentions_loop s acc = acc @ spec_parseMentions s"
proof (induction s arbitrary: acc rule: spec_parseMentions.induct)
  case 1
  show ?case by (subst parseMentions_loop.simps) (simp add: exec_Nil)
next
  case (2 c s)
  show ?case
  proof (cases "c = CHR ''@'' \<and> starts_word s")
    case True
    obtain m r where mr: "spec_segments (dropWhile is_word s) = (m, r)" by fastforce
    from True have ex: "exec mentionRegex (c # s) = Some (CHR ''@'' # takeWhile is_word s @ m, r)"
      using exec_Cons_match[of s] mr by simp
    have "parseMentions_loop (c # s) acc = parseMentions_loop r (acc @ [takeWhile is_word s @ m])"
      by (subst parseMentions_loop.simps) (simp add: ex)
    also have "\<dots> = (acc @ [takeWhile is_word s @ m]) @ spec_parseMentions r"
      using "2.IH"(1)[OF True mr[symmetric]] .
    finally show ?thesis using True mr by simp
  next
    case False
    have "parseMentions_loop (c # s) acc = parseMentions_loop s acc"
      by (subst parseMentions_loop.simps, subst (2) parseMentions_loop.simps)
         (simp add: exec_Cons_skip[OF False])
    moreover from False have "spec_parseMentions (c # s) = spec_parseMentions s" by auto
    ultimately show ?thesis using "2.IH"(2)[OF False] by simp
  qed
qed


text \<open>
  C7. For every input string, \<open>parseMentions\<close> (the regular expression run by the
  backtracking matcher in the \<open>exec\<close> loop) returns exactly the list that the
  specification describes: scanning from the left, each \<open>@\<close> that is followed by a word
  character yields the name made of the word characters after it and of every following
  \<open>-word\<close> segment, in order of appearance, duplicates kept; the scan goes on after the
  name. Characters are compared as they are (case-sensitive), and the function reads
  nothing but its argument.
\<close>

theorem parseMentions_refines_spec: "parseMentions content = spec_parseMentions content"
proof -
  have "parseMentions content = parseMentions_loop content []"
    by (simp add: parseMentions_def)
  also have "\<dots> = [] @ spec_parseMentions content"
    by (rule parseMentions_loop_spec)
  finally show ?thesis by simp
qed

subsection \<open>Evaluating the run\<close>

lemmas time_defs = toISOString_def sqlite_datetime_def date_text_def time_text_def hms_text_def
  civil_from_days_def civil_of_doe_def civil_of_yoe_def civil_of_doy_def civil_of_mp_def
  month_of_mp_def digit_char_def pad2_def pad3_def pad4_def

lemma iso_100000: "toISOString 1767261600000 = ''2026-01-01T10:00:00.000Z''"
  by (simp add: time_defs)

lemma iso_100001: "toISOString 1767261601000 = ''2026-01-01T10:00:01.000Z''"
  by (simp add: time_defs)

lemma iso_100002: "toISOString 1767261602000 = ''2026-01-01T10:00:02.000Z''"
  by (simp add: time_defs)

lemma iso_100003: "toISOString 1767261603000 = ''2026-01-01T10:00:03.000Z''"
  by (simp add: time_defs)

lemma sql_100010: "sqlite_datetime 1767261610000 = ''2026-01-01 10:00:10''"
  by (simp add: time_defs)

lemma parseMentions_eq_spec: "parseMentions content = spec_parseMentions content"
  by (simp add: parseMentions_def parseMentions_loop_spec)

lemma is_word_simps:
  "is_word CHR ''B''" "is_word CHR ''o''" "is_word CHR ''b''" "\<not> is_word CHR '' ''"
  "\<not> is_word CHR ''@''"
  by (simp_all add: is_word_def)

lemma parseMentions_hello: "parseMentions ''hello @Bob'' = [''Bob'']"
  by (simp add: parseMentions_eq_spec is_word_simps)

lemma parseMentions_twice: "parseMentions ''@Bob ping @Bob'' = [''Bob'', ''Bob'']"
  by (simp add: parseMentions_eq_spec is_word_simps)

lemmas hub_defs = api_join_def getRoom_def fresh_process_def empty_database_def
  map_has_def map_get_def setupFileWatcher_def set_add_def replace_room_row_def
  replace_agent_row_def insert_row_def row_of_message_def emit_def Let_def

lemma lab_hub_fields:
  "rooms lab_hub = [(''lab'', \<lparr>room_name = ''lab'', room_agents = [''a1'', ''a2''],
      room_createdAt = ''2026-01-01T10:00:00.000Z'', room_isActive = True,
      room_settings = JObj []\<rparr>)]"
  "agents lab_hub = [(''a1'', alice), (''a2'', bob)]"
  "messages lab_hub = [(''lab'', [joined ''m1'' ''Alice'' ''2026-01-01T10:00:00.000Z'',
      joined ''m2'' ''Bob'' ''2026-01-01T10:00:01.000Z''])]"
  "db_notifications (db lab_hub) = []"
  "db_agent_memory (db lab_hub) = []"
  "map mr_id (db_messages (db lab_hub)) = [''m1'', ''m2'']"
  by (simp_all add: lab_hub_def hub_defs iso_100000 iso_100001 alice_def bob_def joined_def)

subsection \<open>Maps and the frame of createNotifications\<close>

lemma map_get_map_set: "map_get (map_set m k v) k' = (if k' = k then Some v else map_get m k')"
  by (induction m) (auto simp: map_get_def)

lemma deliver_notification_frame:
  "messages (deliver_notification s n) = messages s"
  "agents (deliver_notification s n) = agents s"
  "rooms (deliver_notification s n) = rooms s"
  by (simp_all add: deliver_notification_def emit_def Let_def split: option.splits)

lemma foldl_deliver_frame:
  "messages (foldl deliver_notification s ns) = messages s \<and>
   agents (foldl deliver_notification s ns) = agents s \<and>
   rooms (foldl deliver_notification s ns) = rooms s"
  by (induction ns arbitrary: s) (simp_all add: deliver_notification_frame)

lemma createNotifications_frame:
  "messages (snd (createNotifications s m mentions u t)) = messages s"
  "agents (snd (createNotifications s m mentions u t)) = agents s"
  "rooms (snd (createNotifications s m mentions u t)) = rooms s"
  by (simp_all add: createNotifications_def Let_def foldl_deliver_frame)

subsection \<open>Every registered agent has a log\<close>

lemma map_has_map_set: "map_has (map_set m k v) k' = (k' = k \<or> map_has m k')"
  by (simp add: map_has_def map_get_map_set[unfolded map_get_def])

lemma map_get_map_delete: "map_get (map_delete m k) k' = (if k' = k then None else map_get m k')"
  by (induction m) (auto simp: map_get_def map_delete_def)

lemma map_has_get: "map_has m k = (map_get m k \<noteq> None)"
  by (simp add: map_has_def map_get_def)

lemma inv_load_rooms:
  "hub_inv s \<Longrightarrow> hub_inv (foldl load_room s rows)"
proof (induction rows arbitrary: s)
  case Nil
  then show ?case by simp
next
  case (Cons r rows)
  have "hub_inv (load_room s r)"
    using Cons.prems by (auto simp: hub_inv_def load_room_def map_has_map_set)
  from Cons.IH[OF this] show ?case by simp
qed

lemma inv_start: "loadDataFromDatabase (fresh_process d) False = Some s \<Longrightarrow> hub_inv s"
proof -
  assume a: "loadDataFromDatabase (fresh_process d) False = Some s"
  have "hub_inv (fresh_process d)"
    by (simp add: hub_inv_def fresh_process_def map_has_def map_get_def)
  from inv_load_rooms[OF this] a show ?thesis by (auto simp: loadDataFromDatabase_def)
qed

lemma getRoom_rooms:
  "map_has (rooms (getRoom s r u t)) k = (k = r \<or> map_has (rooms s) k)"
  "map_has (messages (getRoom s r u t)) k = ((k = r \<and> \<not> map_has (rooms s) r) \<or> map_has (messages s) k)"
  "agents (getRoom s r u t) = agents s"
  by (auto simp: getRoom_def setupFileWatcher_def Let_def map_has_map_set)

lemma inv_getRoom: "hub_inv s \<Longrightarrow> hub_inv (getRoom s r u t)"
  by (auto simp: hub_inv_def getRoom_rooms)


lemma inv_join:
  assumes "hub_inv s"
  shows "hub_inv (snd (api_join s r aid an caps u_room t_room t_joined t_active u_msg t_msg))"
proof -
  let ?s1 = "getRoom s r u_room t_room"
  have i1: "hub_inv ?s1" by (rule inv_getRoom[OF assms])
  have "map_has (rooms ?s1) r" by (simp add: getRoom_rooms)
  then obtain room0 where room0: "map_get (rooms ?s1) r = Some room0"
    by (auto simp: map_has_get)
  from i1 \<open>map_has (rooms ?s1) r\<close> have "map_has (messages ?s1) r" by (simp add: hub_inv_def)
  then obtain log where log: "map_get (messages ?s1) r = Some log"
    by (auto simp: map_has_get)
  have rooms': "map_has (rooms (snd (api_join s r aid an caps u_room t_room t_joined t_active u_msg t_msg))) k
      = (k = r \<or> map_has (rooms ?s1) k)" for k
    by (simp add: api_join_def Let_def room0 log emit_def map_has_map_set)
  have msgs': "map_has (messages (snd (api_join s r aid an caps u_room t_room t_joined t_active u_msg t_msg))) k
      = (k = r \<or> map_has (messages ?s1) k)" for k
    by (simp add: api_join_def Let_def room0 log emit_def map_has_map_set)
  have agents': "map_get (agents (snd (api_join s r aid an caps u_room t_room t_joined t_active u_msg t_msg))) k = Some a
      \<Longrightarrow> agent_room a = r \<or> map_get (agents ?s1) k = Some a" for k a
    by (simp add: api_join_def Let_def room0 log emit_def map_get_map_set split: if_splits) auto
  show ?thesis
    unfolding hub_inv_def
  proof (intro conjI allI impI)
    fix k
    assume "map_has (rooms (snd (api_join s r aid an caps u_room t_room t_joined t_active u_msg t_msg))) k"
    with i1 show "map_has (messages (snd (api_join s r aid an caps u_room t_room t_joined t_active u_msg t_msg))) k"
      by (auto simp: rooms' msgs' hub_inv_def)
  next
    fix k a
    assume "map_get (agents (snd (api_join s r aid an caps u_room t_room t_joined t_active u_msg t_msg))) k = Some a"
    from agents'[OF this] i1
    show "map_has (rooms (snd (api_join s r aid an caps u_room t_room t_joined t_active u_msg t_msg))) (agent_room a)"
      by (auto simp: rooms' hub_inv_def)
  qed
qed


lemma inv_same_keys:
  assumes "hub_inv s"
    and "\<And>k. map_has (rooms s') k = map_has (rooms s) k"
    and "\<And>k. map_has (messages s') k = map_has (messages s) k"
    and "\<And>k a. map_get (agents s') k = Some a \<Longrightarrow> \<exists>b. map_get (agents s) k = Some b \<and> agent_room b = agent_room a"
  shows "hub_inv s'"
  unfolding hub_inv_def
proof (intro conjI allI impI)
  fix k
  assume "map_has (rooms s') k"
  with assms(1,2,3) show "map_has (messages s') k" by (simp add: hub_inv_def)
next
  fix k a
  assume "map_get (agents s') k = Some a"
  from assms(4)[OF this] obtain b where b: "map_get (agents s) k = Some b" "agent_room b = agent_room a"
    by blast
  from assms(1) b(1) have "map_has (rooms s) (agent_room b)" unfolding hub_inv_def by blast
  then show "map_has (rooms s') (agent_room a)" by (simp add: assms(2) b(2))
qed

lemma map_has_set_same: "map_has m k \<Longrightarrow> map_has (map_set m k v) k' = map_has m k'"
  by (auto simp: map_has_map_set)

lemma inv_leave: "hub_inv s \<Longrightarrow> hub_inv (snd (api_leave s aid u_msg t_msg))"
  by (rule inv_same_keys, assumption)
     (auto simp: api_leave_def Let_def emit_def map_has_map_set map_get_map_set map_get_map_delete
        map_has_get split: option.splits if_splits)

lemma inv_send:
  "hub_inv s \<Longrightarrow> hub_inv (snd (api_send s aid content metadata u_msg t_msg t_active u t))"
  by (rule inv_same_keys, assumption)
     (auto simp: api_send_def Let_def emit_def map_has_map_set map_get_map_set
        createNotifications_frame map_has_get split: option.splits if_splits)

lemma inv_push: "hub_inv s \<Longrightarrow> hub_inv (emit target e (push_if_present s r m))"
  by (rule inv_same_keys, assumption)
     (auto simp: push_if_present_def emit_def map_has_map_set map_get_map_set map_has_get
        split: option.splits if_splits)

lemma inv_broadcast: "hub_inv s \<Longrightarrow> hub_inv (snd (api_broadcast s r content sender u_msg t_msg))"
  by (simp add: api_broadcast_def Let_def inv_push)

lemma inv_watcher: "hub_inv s \<Longrightarrow> hub_inv (watcher_callback s r ev p u_msg t_msg)"
  by (simp add: watcher_callback_def Let_def inv_push)

lemma inv_memory:
  "hub_inv s \<Longrightarrow> hub_inv (snd (api_memory_post s aid key val type expiresIn mid now t_created))"
  by (rule inv_same_keys, assumption)
     (auto simp: api_memory_post_def Let_def split: option.splits)

lemma inv_read: "hub_inv s \<Longrightarrow> hub_inv (snd (api_notification_read s nid err))"
  by (cases err; rule inv_same_keys, assumption) (auto simp: api_notification_read_def Let_def)

lemma inv_register: "hub_inv s \<Longrightarrow> hub_inv (socket_register s aid sock)"
  by (rule inv_same_keys, assumption)
     (auto simp: socket_register_def map_get_map_set split: option.splits if_splits)

lemma reachable_inv: "reachable s \<Longrightarrow> hub_inv s"
  by (induction rule: reachable.induct)
     (simp_all add: inv_start inv_join inv_leave inv_send inv_broadcast inv_watcher inv_memory
        inv_read inv_register)

lemma registered_agent_has_log:
  assumes "reachable s" and "map_get (agents s) aid = Some a"
  shows "\<exists>log. map_get (messages s) (agent_room a) = Some log"
  using reachable_inv[OF assms(1)] assms(2) by (auto simp: hub_inv_def map_has_get)

lemma lab_hub_reachable: "reachable lab_hub"
proof -
  have "reachable (fresh_process empty_database)"
    by (rule reachable.start[of empty_database])
       (simp add: loadDataFromDatabase_def empty_database_def fresh_process_def)
  then show ?thesis unfolding lab_hub_def by (intro reachable.join)
qed

subsection \<open>Sending\<close>

lemma send_appends_to_log:
  assumes "map_get (agents s) agentId = Some a"
    and "map_get (messages s) (agent_room a) = Some log"
  shows "\<exists>m s'. api_send s agentId content metadata u_msg t_msg t_active u t =
                   (Replied (u_msg, parseMentions content), s')
      \<and> map_get (messages s') (agent_room a) = Some (log @ [m])
      \<and> msg_id m = u_msg \<and> msg_mentions m = Some (parseMentions content)
      \<and> map_get (agents s') agentId = Some (a\<lparr>agent_lastActive := toISOString t_active\<rparr>)
      \<and> (\<forall>r. r \<noteq> agent_room a \<longrightarrow> map_get (messages s') r = map_get (messages s) r)"
  using assms
  by (simp add: api_send_def Let_def emit_def createNotifications_frame map_get_map_set)

text \<open>
  C2. In every state of a running hub and for every agent \<open>a\<close> of the agent map, \<open>send\<close>
  replies with success and appends exactly one message to the log of the agent's room
  (no other log changes); the message is the last element of the log, its id is the
  returned \<open>messageId\<close>, its \<open>mentions\<close> are \<open>parseMentions content\<close>, and the sender's
  \<open>lastActive\<close> becomes the time of the call.
\<close>

theorem send_appends:
  assumes "reachable s" and "map_get (agents s) agentId = Some a"
  shows "\<exists>log m s'. map_get (messages s) (agent_room a) = Some log
      \<and> api_send s agentId content metadata u_msg t_msg t_active u t =
            (Replied (u_msg, parseMentions content), s')
      \<and> map_get (messages s') (agent_room a) = Some (log @ [m])
      \<and> msg_id m = u_msg \<and> msg_mentions m = Some (parseMentions content)
      \<and> map_get (agents s') agentId = Some (a\<lparr>agent_lastActive := toISOString t_active\<rparr>)
      \<and> (\<forall>r. r \<noteq> agent_room a \<longrightarrow> map_get (messages s') r = map_get (messages s) r)"
proof -
  from registered_agent_has_log[OF assms] obtain log
    where log: "map_get (messages s) (agent_room a) = Some log" by blast
  from send_appends_to_log[OF assms(2) log] log show ?thesis by blast
qed

theorem send_appends_witness:
  "\<exists>log m s'. map_get (messages lab_hub) ''lab'' = Some log
      \<and> api_send lab_hub ''a1'' ''hello @Bob'' None ''m3'' 1767261602000 1767261602000
             (\<lambda>i. ''n1'') (\<lambda>i. 1767261602000) = (Replied (''m3'', parseMentions ''hello @Bob''), s')
      \<and> map_get (messages s') ''lab'' = Some (log @ [m])
      \<and> msg_id m = ''m3'' \<and> msg_mentions m = Some (parseMentions ''hello @Bob'')
      \<and> map_get (agents s') ''a1'' = Some (alice\<lparr>agent_lastActive := toISOString 1767261602000\<rparr>)"
proof -
  have a: "map_get (agents lab_hub) ''a1'' = Some alice"
    by (simp add: lab_hub_fields map_get_def)
  have r: "agent_room alice = ''lab''" by (simp add: alice_def)
  from send_appends[OF lab_hub_reachable a] show ?thesis unfolding r by blast
qed

text \<open>
  C8. For every \<open>agentId\<close> that is not in the agent map, \<open>send\<close> replies 404
  \<open>Agent not found\<close> and the whole state (maps, emissions, database) is as before.
\<close>

theorem send_unknown_agent:
  assumes "map_get (agents s) agentId = None"
  shows "api_send s agentId content metadata u_msg t_msg t_active u t =
           (Failed 404 ''Agent not found'', s)"
  using assms by (simp add: api_send_def)

theorem send_unknown_agent_witness:
  "api_send lab_hub ''a9'' ''hello'' None ''m3'' 1767261602000 1767261602000 (\<lambda>i. ''n1'')
     (\<lambda>i. 1767261602000) = (Failed 404 ''Agent not found'', lab_hub)"
proof -
  have "map_get (agents lab_hub) ''a9'' = None"
    by (simp add: lab_hub_fields map_get_def)
  then show ?thesis by (rule send_unknown_agent)
qed

text \<open>
  C10, as the code has it. For every room name with no message log, \<open>broadcast\<close> replies
  with success and the id drawn for the message, reports no error, and changes nothing
  in the state but the emissions: no message log, room, agent or table changes, and the
  message, whose content is \<open>[from] content\<close>, is emitted to the socket room of that
  name. The content is kept nowhere, but it is sent.
\<close>

theorem broadcast_unknown_room:
  assumes "map_get (messages s) roomName = None"
  shows "api_broadcast s roomName content sender u_msg t_msg =
           (Replied u_msg,
            s\<lparr>emitted := emitted s @
                 [(roomName, EvMessage (broadcast_message roomName content sender u_msg t_msg))]\<rparr>)
         \<and> msg_id (broadcast_message roomName content sender u_msg t_msg) = u_msg
         \<and> msg_content (broadcast_message roomName content sender u_msg t_msg) =
             ''['' @ (case sender of None \<Rightarrow> ''Orchestrator'' | Some f \<Rightarrow> f) @ ''] '' @ content"
proof -
  have "push_if_present s roomName (broadcast_message roomName content sender u_msg t_msg) = s"
    using assms by (simp add: push_if_present_def)
  then have "api_broadcast s roomName content sender u_msg t_msg =
      (Replied u_msg,
       s\<lparr>emitted := emitted s @
            [(roomName, EvMessage (broadcast_message roomName content sender u_msg t_msg))]\<rparr>)"
    by (simp add: api_broadcast_def emit_def Let_def)
  moreover have "msg_id (broadcast_message roomName content sender u_msg t_msg) = u_msg"
    by (simp add: broadcast_message_def Let_def)
  moreover have "msg_content (broadcast_message roomName content sender u_msg t_msg) =
      ''['' @ (case sender of None \<Rightarrow> ''Orchestrator'' | Some f \<Rightarrow> f) @ ''] '' @ content"
    by (simp add: broadcast_message_def Let_def)
  ultimately show ?thesis by (intro conjI)
qed

theorem broadcast_unknown_room_witness:
  "api_broadcast lab_hub ''attic'' ''anyone?'' (Some ''Op'') ''m3'' 1767261602000 =
     (Replied ''m3'',
      lab_hub\<lparr>emitted := emitted lab_hub @
        [(''attic'', EvMessage (broadcast_message ''attic'' ''anyone?'' (Some ''Op'') ''m3''
                                  1767261602000))]\<rparr>)
   \<and> msg_id (broadcast_message ''attic'' ''anyone?'' (Some ''Op'') ''m3'' 1767261602000) = ''m3''
   \<and> msg_content (broadcast_message ''attic'' ''anyone?'' (Some ''Op'') ''m3'' 1767261602000) =
       ''[Op] anyone?''"
proof -
  have "map_get (messages lab_hub) ''attic'' = None"
    by (simp add: lab_hub_fields map_get_def)
  from broadcast_unknown_room[OF this, of "''anyone?''" "Some ''Op''" "''m3''" 1767261602000]
  show ?thesis by simp
qed

text \<open>
  C10 as stated fails: the room \<open>attic\<close> has no entry and no log in \<open>lab_hub\<close>, and a
  broadcast to it is not discarded: its content, \<open>[Op] anyone?\<close>, is the last emission
  of the hub afterwards, sent to the socket room \<open>attic\<close> (which a socket joins by
  \<open>register\<close>, whether or not the hub has a room of that name).
\<close>

theorem broadcast_discarded_counterexample:
  "map_get (rooms lab_hub) ''attic'' = None \<and> map_get (messages lab_hub) ''attic'' = None \<and>
   length (emitted (snd (api_broadcast lab_hub ''attic'' ''anyone?'' (Some ''Op'') ''m3''
                           1767261602000))) = Suc (length (emitted lab_hub)) \<and>
   map_prod id (case_event msg_content notif_message)
     (last (emitted (snd (api_broadcast lab_hub ''attic'' ''anyone?'' (Some ''Op'') ''m3''
                            1767261602000)))) = (''attic'', ''[Op] anyone?'')"
  by (simp add: api_broadcast_def push_if_present_def emit_def broadcast_message_def Let_def
      lab_hub_fields map_get_def)

subsection \<open>Notifications per mention\<close>

lemma notification_for_id: "notification_for s m u t (k, x) = Some n \<Longrightarrow> notif_id n = u k"
  by (auto simp: notification_for_def split: option.splits if_splits)

lemma notification_for_recipient:
  "notification_for s m u t (k, x) = Some n \<Longrightarrow> (notif_agent_id n = aid) = resolves_to s aid x"
  by (auto simp: notification_for_def resolves_to_def split: option.splits if_splits)

lemma notification_for_None:
  "notification_for s m u t (k, x) = None \<Longrightarrow> \<not> resolves_to s aid x"
  by (auto simp: notification_for_def resolves_to_def split: option.splits if_splits)

lemma deliver_notification_db:
  "notif_id n \<notin> set (map notif_id (db_notifications (db s))) \<Longrightarrow>
   db_notifications (db (deliver_notification s n)) = db_notifications (db s) @ [n]"
  by (simp add: deliver_notification_def insert_row_def emit_def Let_def split: option.splits)

lemma deliver_all_db:
  "distinct (map notif_id (db_notifications (db s)) @ map (\<lambda>p. u (fst p)) (enumerate k xs)) \<Longrightarrow>
   db_notifications (db (foldl deliver_notification s
       (List.map_filter (notification_for s0 m u t) (enumerate k xs)))) =
   db_notifications (db s) @ List.map_filter (notification_for s0 m u t) (enumerate k xs)"
proof (induction xs arbitrary: k s)
  case Nil
  show ?case by simp
next
  case (Cons x xs)
  show ?case
  proof (cases "notification_for s0 m u t (k, x)")
    case None
    from Cons.prems
    have "distinct (map notif_id (db_notifications (db s)) @
                    map (\<lambda>p. u (fst p)) (enumerate (Suc k) xs))"
      by simp
    from Cons.IH[OF this] None show ?thesis by simp
  next
    case (Some n)
    then have id: "notif_id n = u k" by (rule notification_for_id)
    from Cons.prems have fresh: "notif_id n \<notin> set (map notif_id (db_notifications (db s)))"
      unfolding id by auto
    have step: "db_notifications (db (deliver_notification s n)) = db_notifications (db s) @ [n]"
      by (rule deliver_notification_db[OF fresh])
    from Cons.prems
    have "distinct (map notif_id (db_notifications (db (deliver_notification s n))) @
                    map (\<lambda>p. u (fst p)) (enumerate (Suc k) xs))"
      by (simp add: step id)
    from Cons.IH[OF this] Some step show ?thesis by simp
  qed
qed

lemma enumerate_ids: "map (\<lambda>p. u (fst p)) (enumerate k xs) = map u [k..<k + length xs]"
proof -
  have "map (\<lambda>p. u (fst p)) (enumerate k xs) = map u (map fst (enumerate k xs))"
    by (simp add: comp_def del: map_fst_enumerate)
  also have "\<dots> = map u [k..<k + length xs]"
    by (simp only: map_fst_enumerate)
  finally show ?thesis .
qed

lemma rows_for_created:
  "rows_for aid (List.map_filter (notification_for s m u t) (enumerate k xs)) =
   length (filter (resolves_to s aid) xs)"
proof (induction xs arbitrary: k)
  case Nil
  show ?case by (simp add: rows_for_def)
next
  case (Cons x xs)
  show ?case
  proof (cases "notification_for s m u t (k, x)")
    case None
    with Cons[of "Suc k"] notification_for_None[OF None, of aid] show ?thesis
      by (simp add: rows_for_def)
  next
    case (Some n)
    with Cons[of "Suc k"] notification_for_recipient[OF Some, of aid] show ?thesis
      by (simp add: rows_for_def)
  qed
qed

text \<open>
  C3, as the code has it. When the ids drawn for the notifications are new and distinct,
  the number of notification rows that \<open>createNotifications\<close> adds for a recipient is
  the number of elements of \<open>mentions\<close> that resolve to that recipient: one row for each
  occurrence of the name, not one row for each message.
\<close>

theorem notifications_per_occurrence:
  assumes "distinct (map notif_id (db_notifications (db s)) @ map u [0..<length mentions])"
  shows "rows_for aid (db_notifications (db (snd (createNotifications s m mentions u t)))) =
         rows_for aid (db_notifications (db s)) + length (filter (resolves_to s aid) mentions)"
proof -
  have "db_notifications (db (snd (createNotifications s m mentions u t))) =
        db_notifications (db s) @ List.map_filter (notification_for s m u t) (enumerate 0 mentions)"
    using deliver_all_db[of s u 0 mentions s m t] assms
    by (simp add: createNotifications_def Let_def enumerate_ids)
  then show ?thesis
    using rows_for_created[of aid s m u t 0 mentions] by (simp add: rows_for_def)
qed


theorem notifications_per_occurrence_witness:
  "rows_for ''a2'' (db_notifications (db (snd (createNotifications lab_hub
       (joined ''m9'' ''Zed'' ''2026-01-01T10:00:02.000Z'') [''Bob'', ''Carol'', ''Bob'']
       (\<lambda>i. [digit_char i]) (\<lambda>i. 1767261602000))))) = 2"
proof -
  have d: "distinct (map notif_id (db_notifications (db lab_hub)) @
             map (\<lambda>i. [digit_char i]) [0..<length [''Bob'', ''Carol'', ''Bob'']])"
    by (simp add: lab_hub_fields digit_char_def upt_rec)
  have r: "length (filter (resolves_to lab_hub ''a2'') [''Bob'', ''Carol'', ''Bob'']) = 2"
    by (simp add: resolves_to_def findAgentByName_def map_values_def lab_hub_fields alice_def bob_def)
  from notifications_per_occurrence[OF d, of "''a2''"] r show ?thesis
    by (simp add: rows_for_def lab_hub_fields)
qed

text \<open>
  C3 as stated fails: \<open>@Bob ping @Bob\<close> has the mentions \<open>Bob, Bob\<close>, and sending it
  leaves two notification rows for Bob (\<open>a2\<close>), not one.
\<close>

theorem one_notification_counterexample:
  "parseMentions ''@Bob ping @Bob'' = [''Bob'', ''Bob''] \<and>
   map notif_agent_id (db_notifications (db bob_twice)) = [''a2'', ''a2'']"
  by (simp add: bob_twice_def api_send_def lab_hub_fields map_get_def parseMentions_twice
      createNotifications_def notification_for_def findAgentByName_def map_values_def
      alice_def bob_def deliver_notification_def insert_row_def emit_def Let_def
      iso_100002)

subsection \<open>Marking read twice\<close>

lemma lab_sent_notifications:
  "db_notifications (db lab_sent) =
     [\<lparr>notif_id = ''n1'', notif_agent_id = ''a2'', notif_room = ''lab'',
       notif_message = ''Alice mentioned you: hello @Bob...'', notif_type = ''mention'',
       notif_is_read = False, notif_created_at = ''2026-01-01T10:00:02.000Z''\<rparr>]"
  by (simp add: lab_sent_def api_send_def lab_hub_fields map_get_def parseMentions_hello
      createNotifications_def notification_for_def findAgentByName_def map_values_def
      alice_def bob_def deliver_notification_def insert_row_def emit_def Let_def iso_100002)

lemma mark_read_idem: "map (mark_read nid) (map (mark_read nid) tbl) = map (mark_read nid) tbl"
  by (induction tbl) (simp_all add: mark_read_def)

lemma mark_read_ids: "map notif_id (map (mark_read nid) tbl) = map notif_id tbl"
  by (induction tbl) (simp_all add: mark_read_def)

lemma filter_matches:
  "(filter (\<lambda>n. notif_id n = nid) tbl \<noteq> []) = (nid \<in> set (map notif_id tbl))"
  by (induction tbl) auto

lemma mark_read_one: "notif_id (mark_read nid x) = nid \<Longrightarrow> notif_is_read (mark_read nid x)"
  by (cases "notif_id x = nid") (simp_all add: mark_read_def)

lemma mark_read_is_read:
  assumes "n \<in> set (map (mark_read nid) tbl)" and "notif_id n = nid"
  shows "notif_is_read n"
proof -
  from assms(1) obtain x where "n = mark_read nid x" by auto
  with assms(2) show ?thesis using mark_read_one[of nid x] by simp
qed

lemma api_notification_read_eq:
  "api_notification_read s nid False =
     (Replied (nid \<in> set (map notif_id (db_notifications (db s)))),
      s\<lparr>db := (db s)\<lparr>db_notifications := map (mark_read nid) (db_notifications (db s))\<rparr>\<rparr>)"
  by (simp add: api_notification_read_def Let_def filter_matches)

text \<open>
  C4, as the code has it. For every id of a row of \<open>notifications\<close>, the first call
  reports \<open>updated = true\<close> and leaves the row read; a second call changes nothing in
  the state and reports \<open>updated = true\<close> again: \<open>updated\<close> tells whether a row with that
  id exists.
\<close>

theorem mark_read_twice:
  assumes "nid \<in> set (map notif_id (db_notifications (db s)))"
  shows "\<exists>s1. api_notification_read s nid False = (Replied True, s1) \<and>
           (\<forall>n \<in> set (db_notifications (db s1)). notif_id n = nid \<longrightarrow> notif_is_read n) \<and>
           api_notification_read s1 nid False = (Replied True, s1)"
proof -
  let ?tbl = "db_notifications (db s)"
  let ?s1 = "s\<lparr>db := (db s)\<lparr>db_notifications := map (mark_read nid) ?tbl\<rparr>\<rparr>"
  have first: "api_notification_read s nid False = (Replied True, ?s1)"
    using assms by (simp add: api_notification_read_eq)
  have tbl1: "db_notifications (db ?s1) = map (mark_read nid) ?tbl" by simp
  have rd: "\<forall>n \<in> set (db_notifications (db ?s1)). notif_id n = nid \<longrightarrow> notif_is_read n"
    unfolding tbl1 using mark_read_is_read by blast
  have "nid \<in> set (map notif_id (db_notifications (db ?s1)))"
    unfolding tbl1 mark_read_ids using assms .
  then have second: "api_notification_read ?s1 nid False = (Replied True, ?s1)"
    using mark_read_idem[of nid ?tbl] by (simp add: api_notification_read_eq[of ?s1] del: map_map)
  from first rd second show ?thesis by (intro exI[of _ ?s1] conjI)
qed

theorem mark_read_twice_witness:
  "\<exists>s1. api_notification_read lab_sent ''n1'' False = (Replied True, s1) \<and>
           (\<forall>n \<in> set (db_notifications (db s1)). notif_id n = ''n1'' \<longrightarrow> notif_is_read n) \<and>
           api_notification_read s1 ''n1'' False = (Replied True, s1)"
  by (rule mark_read_twice) (simp add: lab_sent_notifications)

text \<open>
  C4 as stated fails: after \<open>hello @Bob\<close> the notification \<open>n1\<close> exists; the second of
  two calls that mark it read reports \<open>updated = true\<close>, not \<open>false\<close>.
\<close>

theorem second_mark_read_counterexample:
  "fst (api_notification_read (snd (api_notification_read lab_sent ''n1'' False)) ''n1'' False) =
     Replied True"
  by (simp add: api_notification_read_eq lab_sent_notifications mark_read_def)

subsection \<open>Expired memories\<close>

lemma lab_memory_rows:
  "db_agent_memory (db lab_memory) =
     [\<lparr>mem_id = ''mem1'', mem_agent_id = ''a1'', mem_room = ''lab'', mem_key = ''k'',
       mem_value = ''v'', mem_type = ''note'', mem_created_at = ''2026-01-01T10:00:02.000Z'',
       mem_expires_at = Some ''2026-01-01T10:00:03.000Z''\<rparr>]"
  by (simp add: lab_memory_def api_memory_post_def lab_hub_fields map_get_def alice_def
      insert_row_def iso_100002 iso_100003 Let_def)

lemma text_after_same_day: "''2026-01-01 10:00:10'' < ''2026-01-01T10:00:03.000Z''"
  by (simp add: less_char_def)

text \<open>
  C5 fails on the code. The memory of \<open>lab_memory\<close> expires at 2026-01-01T10:00:03Z.
  Read at 10:00:10 of the same day, seven seconds after it expired, it is still returned:
  the query compares the ISO text \<open>2026-01-01T10:00:03.000Z\<close> with SQLite's
  \<open>2026-01-01 10:00:10\<close>, and \<open>T\<close> is greater than the space.
\<close>

theorem expired_memory_returned:
  "api_memory_get lab_memory ''a1'' None None 1767261610000 False =
     Replied [\<lparr>mem_id = ''mem1'', mem_agent_id = ''a1'', mem_room = ''lab'', mem_key = ''k'',
       mem_value = ''v'', mem_type = ''note'', mem_created_at = ''2026-01-01T10:00:02.000Z'',
       mem_expires_at = Some (toISOString 1767261603000)\<rparr>]"
  by (simp add: api_memory_get_def memory_selected_def truthy_text_def lab_memory_rows
      sql_100010 iso_100003 text_after_same_day)

subsection \<open>The limit of a history request\<close>

lemma parseInt_0: "parseInt ''0'' = Num 0"
  by (simp add: parseInt_def is_ws_def is_digit_def digit_value_def digits_value_def)

lemma parseInt_minus_1: "parseInt ''-1'' = Num (- 1)"
  by (simp add: parseInt_def is_ws_def is_digit_def digit_value_def digits_value_def)

lemma parseInt_abc: "parseInt ''abc'' = NaN"
  by (simp add: parseInt_def is_ws_def is_digit_def digit_value_def digits_value_def)

lemma js_slice_neg_nat: "js_slice (js_neg (Num (- int k))) xs = drop k xs"
  by (simp add: min_def)

lemma js_slice_last: "0 < k \<Longrightarrow> js_slice (js_neg (Num (int k))) xs = drop (length xs - k) xs"
  by (simp add: max_def nat_minus_as_int)

lemma room_messages_broadcast:
  "map_get (messages s) room = Some log \<Longrightarrow>
   map_get (messages (snd (api_broadcast s room content sender u t))) room =
     Some (log @ [broadcast_message room content sender u t])"
  by (simp add: api_broadcast_def push_if_present_def emit_def Let_def map_get_map_set)

lemma broadcasts_length:
  "map_get (messages s) room = Some log \<Longrightarrow>
   \<exists>log'. map_get (messages (foldl (\<lambda>s i. snd (api_broadcast s room content sender (u i) t)) s xs)) room
            = Some log' \<and> length log' = length log + length xs"
proof (induction xs arbitrary: s log)
  case Nil
  then show ?case by simp
next
  case (Cons x xs)
  from room_messages_broadcast[OF Cons.prems]
  have "map_get (messages (snd (api_broadcast s room content sender (u x) t))) room =
          Some (log @ [broadcast_message room content sender (u x) t])" .
  from Cons.IH[OF this] show ?case by simp
qed

lemma crowded_length: "length (room_messages crowded_hub ''lab'') = 101"
proof -
  have "map_get (messages lab_hub) ''lab'' =
      Some [joined ''m1'' ''Alice'' ''2026-01-01T10:00:00.000Z'',
            joined ''m2'' ''Bob'' ''2026-01-01T10:00:01.000Z'']"
    by (simp add: lab_hub_fields map_get_def)
  from broadcasts_length[OF this, of "''tick''" None "\<lambda>i. ''b'' @ pad3 i" 1767261603000 "[0..<99]"]
  show ?thesis by (auto simp: crowded_hub_def room_messages_def)
qed

lemma lab_hub_log:
  "room_messages lab_hub ''lab'' =
     [joined ''m1'' ''Alice'' ''2026-01-01T10:00:00.000Z'',
      joined ''m2'' ''Bob'' ''2026-01-01T10:00:01.000Z'']"
  by (simp add: room_messages_def lab_hub_fields map_get_def)

text \<open>
  C6, as the code has it. For every room and every \<open>since\<close>: with \<open>limit=0\<close>, and with a
  \<open>limit\<close> that \<open>parseInt\<close> reads as \<open>NaN\<close>, the request returns every message that
  passes the \<open>since\<close> filter; with a negative \<open>limit\<close> \<open>-k\<close> it returns them without the
  first \<open>k\<close>; with no \<open>limit\<close> it returns the last 100.
\<close>

theorem limit_boundaries:
  "api_messages pd s room since (Some ''0'') = since_filter pd since (room_messages s room) \<and>
   (parseInt l = NaN \<longrightarrow>
      api_messages pd s room since (Some l) = since_filter pd since (room_messages s room)) \<and>
   (parseInt l = Num (- int k) \<longrightarrow>
      api_messages pd s room since (Some l) = drop k (since_filter pd since (room_messages s room))) \<and>
   api_messages pd s room since None =
     drop (length (since_filter pd since (room_messages s room)) - 100)
       (since_filter pd since (room_messages s room))"
proof -
  have "js_slice (js_neg (Num (int 100))) xs = drop (length xs - 100) xs" for xs :: "message list"
    by (rule js_slice_last) simp
  then have d: "js_slice (js_neg (Num 100)) xs = drop (length xs - 100) xs" for xs :: "message list"
    by simp
  show ?thesis
    using js_slice_neg_nat[of k "since_filter pd since (room_messages s room)"]
    by (simp add: api_messages_def Let_def parseInt_0 d del: js_slice.simps js_neg.simps)
       (simp)
qed

theorem limit_boundaries_witness:
  "parseInt ''abc'' = NaN \<and> parseInt ''-1'' = Num (- int 1) \<and>
   api_messages (\<lambda>x. None) lab_hub ''lab'' None (Some ''abc'') = room_messages lab_hub ''lab'' \<and>
   api_messages (\<lambda>x. None) lab_hub ''lab'' None (Some ''-1'') = drop 1 (room_messages lab_hub ''lab'')"
  using limit_boundaries[of "\<lambda>x. None" lab_hub "''lab''" None "''abc''" 1]
    limit_boundaries[of "\<lambda>x. None" lab_hub "''lab''" None "''-1''" 1]
  by (simp add: parseInt_abc parseInt_minus_1 since_filter_def)

text \<open>
  C6 as stated fails: in \<open>lab_hub\<close>, whose log has two messages, \<open>limit=0\<close> returns both
  and \<open>limit=-1\<close> returns one where the default returns two; in \<open>crowded_hub\<close>, whose
  log has 101, \<open>limit=abc\<close> returns 101 where the default returns 100.
\<close>

theorem limit_counterexample:
  "api_messages (\<lambda>x. None) lab_hub ''lab'' None (Some ''0'') = room_messages lab_hub ''lab'' \<and>
   length (room_messages lab_hub ''lab'') = 2 \<and>
   length (api_messages (\<lambda>x. None) lab_hub ''lab'' None (Some ''-1'')) = 1 \<and>
   length (api_messages (\<lambda>x. None) lab_hub ''lab'' None None) = 2 \<and>
   length (api_messages (\<lambda>x. None) crowded_hub ''lab'' None (Some ''abc'')) = 101 \<and>
   length (api_messages (\<lambda>x. None) crowded_hub ''lab'' None None) = 100"
  by (simp add: api_messages_def since_filter_def parseInt_0 parseInt_minus_1 parseInt_abc
      lab_hub_log crowded_length Let_def)

subsection \<open>Restart\<close>

lemma lab_hub_db_rooms:
  "db_rooms (db lab_hub) = [\<lparr>rr_id = ''r1'', rr_name = ''lab'',
      rr_created_at = ''2026-01-01T10:00:00.000Z'', rr_is_active = True, rr_settings = JObj []\<rparr>]"
  by (simp add: lab_hub_def hub_defs iso_100000 iso_100001)

lemma lab_hub_message_ids: "mr_id ` set (db_messages (db lab_hub)) = {''m1'', ''m2''}"
proof -
  have "set (map mr_id (db_messages (db lab_hub))) = set [''m1'', ''m2'']"
    by (simp only: lab_hub_fields)
  then show ?thesis by simp
qed

lemma lab_sent_fields:
  "rooms lab_sent = rooms lab_hub"
  "map msg_id (room_messages lab_sent ''lab'') = [''m1'', ''m2'', ''m3'']"
  "map mr_id (db_messages (db lab_sent)) = [''m1'', ''m2'', ''m3'']"
  "db_rooms (db lab_sent) = db_rooms (db lab_hub)"
  by (simp_all add: lab_sent_def api_send_def lab_hub_fields map_get_def room_messages_def
      parseMentions_hello createNotifications_def notification_for_def findAgentByName_def
      map_values_def alice_def bob_def deliver_notification_def insert_row_def emit_def Let_def
      joined_def row_of_message_def lab_hub_message_ids)

lemma load_room_logs:
  "\<forall>r log. map_get (messages s) r = Some log \<longrightarrow> log = [] \<Longrightarrow>
   \<forall>r log. map_get (messages (foldl load_room s rows)) r = Some log \<longrightarrow> log = []"
proof (induction rows arbitrary: s)
  case Nil
  then show ?case by simp
next
  case (Cons row rows)
  have "\<forall>r log. map_get (messages (load_room s row)) r = Some log \<longrightarrow> log = []"
    using Cons.prems by (simp add: load_room_def map_get_map_set)
  from Cons.IH[OF this] show ?case by simp
qed

lemma restart_logs_empty:
  assumes "restart s = Some s'"
  shows "room_messages s' r = []"
proof -
  have "\<forall>r log. map_get (messages (fresh_process (db s))) r = Some log \<longrightarrow> log = []"
    by (simp add: fresh_process_def map_get_def)
  from load_room_logs[OF this, of "filter rr_is_active (db_rooms (db s))"] assms
  show ?thesis
    by (auto simp: restart_def loadDataFromDatabase_def room_messages_def fresh_process_def
        split: option.splits)
qed

text \<open>
  C1 fails on the code. After the run \<open>lab_sent\<close> (two joins and one send, all three
  messages written to the table \<open>messages\<close>), the history of \<open>lab\<close> has the messages
  \<open>m1\<close>, \<open>m2\<close>, \<open>m3\<close>. After a restart on the same database the rows are still in the
  table and \<open>listRooms\<close> lists the same room, but the history of \<open>lab\<close> is empty:
  \<open>loadDataFromDatabase\<close> reads the table \<open>rooms\<close> only (\<open>restart_logs_empty\<close>: after
  any restart every log is empty).
\<close>

theorem restart_drops_history:
  "\<exists>s'. restart lab_sent = Some s' \<and>
         map msg_id (api_messages pd lab_sent ''lab'' None None) = [''m1'', ''m2'', ''m3''] \<and>
         map mr_id (db_messages (db s')) = [''m1'', ''m2'', ''m3''] \<and>
         map fst (api_rooms s') = map fst (api_rooms lab_sent) \<and>
         api_messages pd s' ''lab'' None None = []"
proof -
  let ?s' = "foldl load_room (fresh_process (db lab_sent)) (filter rr_is_active (db_rooms (db lab_sent)))"
  have r: "restart lab_sent = Some ?s'"
    by (simp add: restart_def loadDataFromDatabase_def fresh_process_def)
  have "length (map msg_id (room_messages lab_sent ''lab'')) = 3"
    by (simp only: lab_sent_fields) simp
  then have len: "length (room_messages lab_sent ''lab'') = 3" by simp
  have before: "map msg_id (api_messages pd lab_sent ''lab'' None None) = [''m1'', ''m2'', ''m3'']"
    by (simp add: api_messages_def since_filter_def lab_sent_fields len Let_def)
  have dbm: "map mr_id (db_messages (db ?s')) = [''m1'', ''m2'', ''m3'']"
    by (simp add: lab_sent_fields lab_hub_db_rooms load_room_def fresh_process_def)
  have rms: "map fst (api_rooms ?s') = map fst (api_rooms lab_sent)"
    by (simp add: api_rooms_def lab_sent_fields lab_hub_fields lab_hub_db_rooms load_room_def
        fresh_process_def)
  have after: "api_messages pd ?s' ''lab'' None None = []"
    by (simp add: api_messages_def since_filter_def Let_def restart_logs_empty[OF r])
  from r before dbm rms after show ?thesis by (intro exI[of _ ?s'] conjI)
qed


subsection \<open>The sandbox of the shared filesystem\<close>

lemma escapes_sandboxed: "escapes root fs arg \<Longrightarrow> sandboxed root fs arg = Inl PathEscape"
  by (cases "realpath 40 fs [] (resolve root arg)") (simp_all add: escapes_def sandboxed_def)

lemma demo_escapes:
  "escapes shared_root demo_fs ''../foo''"
  "escapes shared_root demo_fs ''/etc/passwd''"
  "escapes shared_root demo_fs ''out/passwd''"
  by (simp_all add: escapes_def resolve_def shared_root_def demo_fs_def)

text \<open>
  C9. For every root, filesystem and path argument that resolves outside the root after
  normalization and after following symbolic links (through \<open>..\<close>, an absolute path or
  a link that points outside), read, write, list and delete fail with the path-escape
  error and leave the filesystem as it was.
\<close>

theorem escape_rejected:
  assumes "escapes root fs arg"
  shows "fs_read root fs arg = (Inl PathEscape, fs) \<and>
         fs_write root fs arg content = (Inl PathEscape, fs) \<and>
         fs_list root fs arg = (Inl PathEscape, fs) \<and>
         fs_delete root fs arg = (Inl PathEscape, fs)"
  using escapes_sandboxed[OF assms]
  by (simp add: fs_read_def fs_write_def fs_list_def fs_delete_def)

theorem escape_rejected_witness:
  "fs_write shared_root demo_fs ''../foo'' ''x'' = (Inl PathEscape, demo_fs) \<and>
   fs_write shared_root demo_fs ''/etc/passwd'' ''x'' = (Inl PathEscape, demo_fs) \<and>
   fs_read shared_root demo_fs ''out/passwd'' = (Inl PathEscape, demo_fs) \<and>
   fs_delete shared_root demo_fs ''/etc/passwd'' = (Inl PathEscape, demo_fs) \<and>
   fs_list shared_root demo_fs ''..'' = (Inl PathEscape, demo_fs)"
proof -
  have up: "escapes shared_root demo_fs ''..''"
    by (simp add: escapes_def resolve_def shared_root_def demo_fs_def)
  from escape_rejected[OF demo_escapes(1), of "''x''"] escape_rejected[OF demo_escapes(2), of "''x''"]
    escape_rejected[OF demo_escapes(3), of "''x''"] escape_rejected[OF up, of "''x''"]
  show ?thesis by simp
qed

text \<open>
  An operation that succeeds changes nothing outside the root either: after a write or
  a delete every path outside the root holds what it held.
\<close>

lemma map_of_fs_put: "map_of (fs_put fs p nd) q = (if q = p then Some nd else map_of fs q)"
  by (induction fs) auto

lemma inside_take: "inside root p \<Longrightarrow> length root \<le> k \<Longrightarrow> inside root (take k p)"
proof (induction root p arbitrary: k rule: inside.induct)
  case (1 p)
  show ?case by simp
next
  case (2 r rs)
  then show ?case by simp
next
  case (3 r rs x xs)
  then show ?case by (cases k) simp_all
qed

lemma make_dir_frame: "inside root p \<Longrightarrow> \<not> inside root q \<Longrightarrow> map_of (make_dir fs p) q = map_of fs q"
  by (auto simp: make_dir_def map_of_fs_put split: option.splits)

lemma make_dirs_frame:
  "\<forall>p \<in> set ps. inside root p \<Longrightarrow> \<not> inside root q \<Longrightarrow> map_of (foldl make_dir fs ps) q = map_of fs q"
proof (induction ps arbitrary: fs)
  case Nil
  show ?case by simp
next
  case (Cons a ps)
  from Cons.prems have a: "inside root a" and rest: "\<forall>p \<in> set ps. inside root p" by simp_all
  have "map_of (foldl make_dir (make_dir fs a) ps) q = map_of (make_dir fs a) q"
    by (rule Cons.IH[OF rest Cons.prems(2)])
  also have "\<dots> = map_of fs q" by (rule make_dir_frame[OF a Cons.prems(2)])
  finally show ?case by simp
qed

lemma sandboxed_inside: "sandboxed root fs arg = Inr p \<Longrightarrow> inside root p"
  by (auto simp: sandboxed_def split: option.splits if_splits)

lemma map_of_filter_other: "q \<noteq> p \<Longrightarrow> map_of (filter (\<lambda>e. fst e \<noteq> p) fs) q = map_of fs q"
  by (induction fs) auto

lemma write_frame:
  assumes "fs_write root fs arg content = (Inr u, fs')" and "\<not> inside root q"
  shows "map_of fs' q = map_of fs q"
proof -
  from assms(1) obtain p where p: "sandboxed root fs arg = Inr p"
    and fs': "fs' = fs_put (foldl make_dir fs (parents_below root p)) p (File content)"
    by (auto simp: fs_write_def split: sum.splits)
  have ins: "inside root p" by (rule sandboxed_inside[OF p])
  have "\<forall>x \<in> set (parents_below root p). inside root x"
    using ins by (auto simp: parents_below_def intro: inside_take)
  from make_dirs_frame[OF this assms(2)] ins assms(2) show ?thesis
    unfolding fs' by (auto simp: map_of_fs_put)
qed

lemma delete_frame:
  assumes "fs_delete root fs arg = (Inr u, fs')" and "\<not> inside root q"
  shows "map_of fs' q = map_of fs q"
proof -
  from assms(1) obtain p where p: "sandboxed root fs arg = Inr p"
    and fs': "fs' = filter (\<lambda>e. fst e \<noteq> p) fs"
    by (auto simp: fs_delete_def split: sum.splits option.splits)
  have "inside root p" by (rule sandboxed_inside[OF p])
  with assms(2) have "q \<noteq> p" by auto
  then show ?thesis unfolding fs' by (rule map_of_filter_other)
qed


end
